theory Spec2Isabelle
  imports Main "HOL-Library.Multiset"
begin

section \<open>JavaScript values\<close>

text \<open>
  The tracker answers in JSON, and the handlers test what they read for presence
  (\<^verbatim>\<open>!issue\<close>, \<^verbatim>\<open>results && results.issues\<close>). A value that may be absent is
  therefore a \<open>'a js\<close>: \<open>Undefined\<close> (the property is not there, or a function
  returned without a value), \<open>Null\<close>, or \<open>Val x\<close>. Objects and arrays are truthy
  whenever they are present; a string is truthy when it is present and not empty; a
  number when it is present and not zero.
\<close>

datatype 'a js = Undefined | Null | Val 'a

fun truthy_str :: "string js \<Rightarrow> bool" where
  "truthy_str (Val s) = (s \<noteq> [])"
| "truthy_str _ = False"

fun truthy_num :: "int js \<Rightarrow> bool" where
  "truthy_num (Val n) = (n \<noteq> 0)"
| "truthy_num _ = False"

text \<open>String conversion, as \<^verbatim>\<open>+\<close> on strings and template literals apply it.\<close>

fun str :: "string js \<Rightarrow> string" where
  "str (Val s) = s"
| "str Undefined = ''undefined''"
| "str Null = ''null''"

definition NL :: string where
  "NL = [CHR 0x0A]"

definition TAB :: string where
  "TAB = [CHR 0x09]"

definition digit :: "nat \<Rightarrow> char" where
  "digit n = ''0123456789'' ! (n mod 10)"

text \<open>A counter (\<^verbatim>\<open>updatedCount\<close>, an array's \<^verbatim>\<open>length\<close>) printed in decimal.\<close>

function str_nat :: "nat \<Rightarrow> string" where
  "str_nat n = (if n < 10 then [digit n] else str_nat (n div 10) @ [digit (n mod 10)])"
  by pat_completeness auto
termination
  by (relation "measure (\<lambda>n. n)") auto


section \<open>The tracker's records\<close>

record status_obj =
  status_name :: "string js"

record issuetype_obj =
  issuetype_name :: "string js"

record person =
  displayName :: "string js"
  emailAddress :: "string js"

record version =
  version_id :: "string js"
  version_name :: "string js"

record comment_obj =
  comment_created :: "string js"
  comment_author :: "person js"
  comment_body :: "string js"

record comment_thread =
  comments :: "comment_obj list js"

record fields_obj =
  summary :: "string js"
  issuetype :: "issuetype_obj js"
  assignee :: "person js"
  status :: "status_obj js"
  created :: "string js"
  fixVersions :: "version list js"
  customfield_10022 :: "string js"
  labels :: "string list js"
  description :: "string js"
  comment :: "comment_thread js"
  customfield_10101 :: "string js"

record issue =
  issue_id :: "string js"
  issue_key :: "string js"
  issue_fields :: "fields_obj js"

record search_results =
  issues :: "issue js list js"

record transition =
  transition_id :: "string js"
  transition_name :: "string js"

record transitions_resp =
  transitions :: "transition list js"

record sprint =
  sprint_id :: "int js"

record sprints_resp =
  sprint_values :: "sprint js list js"

record board_issues =
  sprint_issues :: "issue js list js"

section \<open>Effects: tracker calls, console lines, rejections\<close>

text \<open>
  What a handler can throw: a \<open>TypeError\<close> (a property read on \<^verbatim>\<open>undefined\<close> or
  \<^verbatim>\<open>null\<close>), or the rejection of a tracker request, which carries
  \<^verbatim>\<open>e.error.errorMessages\<close> when the answer had one.
\<close>

datatype exn = TypeError | RequestFailed "string list js"

datatype call =
    SearchJira string
  | FindIssue string
  | ListTransitions string
  | TransitionIssue string string
  | GetAllSprints string nat nat string
  | GetBoardIssuesForSprint string int
  | GetVersions string
  | UpdateIssue "string js" "version list"

datatype style = Bold | Underline | Red | Green | Yellow

text \<open>
  The tracker, the colour library and the date library are outside the program. The
  environment gives the tracker's answer to each request as a function of the request
  (\<open>Inl\<close> a rejection), the styling \<^verbatim>\<open>chalk.<styles>(s)\<close>, the date format
  \<^verbatim>\<open>moment(d).format('MMMM Do YYYY, h:mm A')\<close> and the text of a thrown value.
  When several requests are in flight at once, \<open>arrivals\<close> is the order in which
  their answers come back: each entry is the position of the handler whose pending
  request is answered next.
\<close>

record env =
  chalk :: "style list \<Rightarrow> string \<Rightarrow> string"
  moment_format :: "string js \<Rightarrow> string"
  show_exn :: "exn \<Rightarrow> string"
  searchJira :: "string \<Rightarrow> exn + search_results js"
  findIssue :: "string \<Rightarrow> exn + issue js"
  listTransitions :: "string \<Rightarrow> exn + transitions_resp js"
  transitionIssue :: "string \<Rightarrow> string \<Rightarrow> exn + unit"
  getAllSprints :: "string \<Rightarrow> nat \<Rightarrow> nat \<Rightarrow> string \<Rightarrow> exn + sprints_resp js"
  getBoardIssuesForSprint :: "string \<Rightarrow> int \<Rightarrow> exn + board_issues js"
  getVersions :: "string \<Rightarrow> exn + version js list js"
  updateIssue :: "string js \<Rightarrow> version list \<Rightarrow> exn + unit"
  arrivals :: "nat list"

text \<open>
  A run of an async function: the tracker calls it made, in program order, the lines it
  wrote with \<^verbatim>\<open>console.log\<close>, and how its promise settled (\<open>Inl\<close> rejected with
  the thrown value, \<open>Inr\<close> fulfilled with the returned one).
\<close>

type_synonym 'a io = "call list \<times> string list \<times> (exn + 'a)"

definition return :: "'a \<Rightarrow> 'a io" where
  "return x = ([], [], Inr x)"

definition throw :: "exn \<Rightarrow> 'a io" where
  "throw e = ([], [], Inl e)"

definition console_log :: "string \<Rightarrow> unit io" where
  "console_log s = ([], [s], Inr ())"

definition request :: "call \<Rightarrow> exn + 'a \<Rightarrow> 'a io" where
  "request c r = ([c], [], r)"

definition bind :: "'a io \<Rightarrow> ('a \<Rightarrow> 'b io) \<Rightarrow> 'b io" where
  "bind m f = (case m of
      (cs, out, Inl e) \<Rightarrow> (cs, out, Inl e)
    | (cs, out, Inr x) \<Rightarrow> (case f x of (cs', out', r) \<Rightarrow> (cs @ cs', out @ out', r)))"

definition try_catch :: "'a io \<Rightarrow> (exn \<Rightarrow> 'a io) \<Rightarrow> 'a io" where
  "try_catch m h = (case m of
      (cs, out, Inl e) \<Rightarrow> (case h e of (cs', out', r) \<Rightarrow> (cs @ cs', out @ out', r))
    | (cs, out, Inr x) \<Rightarrow> (cs, out, Inr x))"

fun forEach :: "('a \<Rightarrow> unit io) \<Rightarrow> 'a list \<Rightarrow> unit io" where
  "forEach f [] = return ()"
| "forEach f (x # xs) = bind (f x) (\<lambda>_. forEach f xs)"

definition calls_of :: "'a io \<Rightarrow> call list" where
  "calls_of m = fst m"

definition output_of :: "'a io \<Rightarrow> string list" where
  "output_of m = fst (snd m)"

definition outcome_of :: "'a io \<Rightarrow> exn + 'a" where
  "outcome_of m = snd (snd m)"

section \<open>Issue query\<close>

text \<open>The text \<^verbatim>\<open>handleError\<close> builds: the fixed message, then the first of the
  rejection's error messages when it carries one, in red.\<close>

definition error_message :: "env \<Rightarrow> exn \<Rightarrow> string" where
  "error_message E e =
    (let msg = NL @ ''Sorry, something went wrong while retrieving Jira issues:'' @ NL @ NL;
         msg' = (case e of
             RequestFailed (Val (m # _)) \<Rightarrow> msg @ TAB @ m @ NL
           | _ \<Rightarrow> msg)
     in chalk E [Red] msg')"

definition handleError :: "env \<Rightarrow> exn \<Rightarrow> unit io" where
  "handleError E e = console_log (error_message E e)"

text \<open>The line \<^verbatim>\<open>i.key + ' - ' + i.fields.summary\<close> of one search result.\<close>

definition search_line :: "issue js \<Rightarrow> unit io" where
  "search_line i = (case i of
      Val iss \<Rightarrow> (case issue_fields iss of
          Val f \<Rightarrow> console_log (str (issue_key iss) @ '' - '' @ str (summary f))
        | _ \<Rightarrow> throw TypeError)
    | _ \<Rightarrow> throw TypeError)"

definition search :: "env \<Rightarrow> string \<Rightarrow> issue js list js io" where
  "search E query =
    (if query = [] then return (Val [])
     else try_catch
       (bind (request (SearchJira query) (searchJira E query)) (\<lambda>results.
          let found = (case results of
                  Val r \<Rightarrow> (case issues r of Val is \<Rightarrow> is | _ \<Rightarrow> [])
                | _ \<Rightarrow> [])
          in bind (forEach search_line found) (\<lambda>_. return (Val found))))
       (\<lambda>e. bind (handleError E e) (\<lambda>_. return Undefined)))"

definition getIssuesByFixVersion :: "env \<Rightarrow> string \<Rightarrow> issue js list js io" where
  "getIssuesByFixVersion E version =
    (if version = [] then return (Val []) else search E (''fixVersion='' @ version))"

section \<open>Close-Issues\<close>

definition getTransitions :: "env \<Rightarrow> string js \<Rightarrow> transitions_resp js io" where
  "getTransitions E issueId =
    (if \<not> truthy_str issueId then return Null
     else request (ListTransitions (str issueId)) (listTransitions E (str issueId)))"

text \<open>
  The second half of \<^verbatim>\<open>closeIssue\<close>, from \<^verbatim>\<open>closeTransition\<close> on: \<open>None\<close> when
  \<^verbatim>\<open>transitions\<close> was falsy or \<^verbatim>\<open>find\<close> found nothing.
\<close>

definition applyClose :: "env \<Rightarrow> string js \<Rightarrow> transition option \<Rightarrow> string js io" where
  "applyClose E key closeTransition =
    (case closeTransition of
      Some t \<Rightarrow>
        (if truthy_str (transition_id t)
         then bind (request (TransitionIssue (str key) (str (transition_id t)))
                     (transitionIssue E (str key) (str (transition_id t))))
                (\<lambda>_. return (Val (str key @ '' - '' @ chalk E [Green] ''Closed'')))
         else return (Val (str key @ '' - ''
                @ chalk E [Red] ''Close Transition not available, reason unknown...'')))
    | None \<Rightarrow> return (Val (str key @ '' - ''
                @ chalk E [Red] ''Close Transition not available, reason unknown...'')))"

definition closeIssue :: "env \<Rightarrow> issue js \<Rightarrow> string js io" where
  "closeIssue E issue =
    (case issue of
      Val i \<Rightarrow>
        (if \<not> truthy_str (issue_key i) then return Undefined
         else case issue_fields i of
           Val f \<Rightarrow> (case status f of
               Val st \<Rightarrow>
                 (let key = issue_key i; status = status_name st in
                  if status = Val ''Closed''
                  then return (Val (str key @ '' - '' @ chalk E [Yellow] ''Issue already Closed''))
                  else if status \<noteq> Val ''Resolved''
                  then return (Val (str key @ '' - ''
                         @ chalk E [Red] ''Issue not Resolved yet, can't be closed''))
                  else bind (getTransitions E key) (\<lambda>trs.
                    case trs of
                      Val r \<Rightarrow> (case transitions r of
                          Val ts \<Rightarrow>
                            applyClose E key
                              (find (\<lambda>t. transition_name t = Val ''Close Issue'') ts)
                        | _ \<Rightarrow> throw TypeError)
                    | _ \<Rightarrow> applyClose E key None))
             | _ \<Rightarrow> return Undefined)
         | _ \<Rightarrow> return Undefined)
    | _ \<Rightarrow> return Undefined)"

text \<open>
  \<^verbatim>\<open>issues.map(closeIssue)\<close> starts every handler, and each runs on its own up to
  its first \<^verbatim>\<open>await\<close>; only then does \<^verbatim>\<open>Promise.all\<close> wait. To the join a handler
  is therefore a task: the requests it makes one after the other, the first when it
  is started and each next one when the answer to the one before has arrived, and the
  way it settles once the last answer is in. \<^verbatim>\<open>closeIssue\<close> writes no line, so its task
  is its call log and its outcome.
\<close>

type_synonym 'a task = "call list \<times> (exn + 'a)"

definition task_of :: "'a io \<Rightarrow> 'a task" where
  "task_of m = (calls_of m, outcome_of m)"

text \<open>
  The state of the join: of each task the requests not yet answered (the first of
  them is in flight, the others not yet made), the calls made so far in the order
  they were made, and the rejection seen first.
\<close>

type_synonym 'a joining = "'a task list \<times> call list \<times> exn option"

definition settle :: "exn option \<Rightarrow> exn + 'a \<Rightarrow> exn option" where
  "settle rej r = (case rej of
      Some e \<Rightarrow> Some e
    | None \<Rightarrow> (case r of Inl e \<Rightarrow> Some e | Inr _ \<Rightarrow> None))"

text \<open>Starting the tasks in input order: each makes its first request, and a task
  without requests settles at once.\<close>

definition start :: "'a task list \<Rightarrow> 'a joining" where
  "start ts =
    (ts, concat (map (\<lambda>t. take 1 (fst t)) ts),
     foldl settle None (map snd (filter (\<lambda>t. fst t = []) ts)))"

text \<open>The answer to the pending request of task \<open>i\<close> arrives: the task makes its
  next request, or settles when there is none.\<close>

definition arrive :: "'a joining \<Rightarrow> nat \<Rightarrow> 'a joining" where
  "arrive s i = (case s of (ts, made, rej) \<Rightarrow>
      if i < length ts then
        (case fst (ts ! i) of
          [] \<Rightarrow> (ts, made, rej)
        | c # later \<Rightarrow> (case later of
            [] \<Rightarrow> (ts[i := ([], snd (ts ! i))], made, settle rej (snd (ts ! i)))
          | c' # _ \<Rightarrow> (ts[i := (later, snd (ts ! i))], made @ [c'], rej)))
      else (ts, made, rej))"

text \<open>Every request is answered in the end: the answers that the given order leaves
  out arrive task by task, in input order.\<close>

definition finish :: "'a joining \<Rightarrow> call list \<times> exn option" where
  "finish s = (case s of (ts, made, rej) \<Rightarrow>
      (made @ concat (map (\<lambda>t. tl (fst t)) ts),
       foldl settle rej (map snd (filter (\<lambda>t. fst t \<noteq> []) ts))))"

fun fulfilled :: "(exn + 'a) list \<Rightarrow> 'a list" where
  "fulfilled [] = []"
| "fulfilled (Inr x # rs) = x # fulfilled rs"
| "fulfilled (Inl e # rs) = fulfilled rs"

text \<open>
  \<^verbatim>\<open>Promise.all\<close>: it rejects with the rejection that comes first in time, and
  otherwise fulfils with the values in input order. It cancels no task, so the call
  log holds the requests of all of them, in the order in which they were made.
\<close>

definition Promise_all :: "nat list \<Rightarrow> 'a task list \<Rightarrow> 'a list io" where
  "Promise_all order ts = (case finish (foldl arrive (start ts) order) of
      (made, rej) \<Rightarrow>
        (made, [], case rej of Some e \<Rightarrow> Inl e | None \<Rightarrow> Inr (fulfilled (map snd ts))))"

text \<open>
  What holds of the state of a join that was started with the tasks \<open>ts\<close>, whatever
  the order of arrival: the outcomes are those of \<open>ts\<close>, the calls made and the calls
  still to make are together the calls of \<open>ts\<close>, a task that has settled with a
  rejection has been noticed, and a noticed rejection is that of some task.
\<close>

definition join_inv :: "'a task list \<Rightarrow> 'a joining \<Rightarrow> bool" where
  "join_inv ts s = (case s of (ts', made, rej) \<Rightarrow>
      map snd ts' = map snd ts
    \<and> mset made + mset (concat (map (\<lambda>t. tl (fst t)) ts')) = mset (concat (map fst ts))
    \<and> (\<forall>j < length ts'. fst (ts' ! j) = [] \<longrightarrow> (\<forall>e. snd (ts' ! j) = Inl e \<longrightarrow> rej \<noteq> None))
    \<and> (\<forall>e. rej = Some e \<longrightarrow> Inl e \<in> set (map snd ts)))"

definition closeIssues :: "env \<Rightarrow> string \<Rightarrow> unit io" where
  "closeIssues E version =
    bind (getIssuesByFixVersion E version) (\<lambda>found.
      case found of
        Val is \<Rightarrow>
          bind (Promise_all (arrivals E) (map (\<lambda>i. task_of (closeIssue E i)) is))
            (\<lambda>responses. forEach (\<lambda>res. console_log (str res)) responses)
      | _ \<Rightarrow> throw TypeError)"

section \<open>Release-Notes\<close>

record release_note =
  note_id :: "string js"
  note_type :: "string js"
  note_description :: "string js"

record release_notes =
  notes_version :: string
  newFeatures :: "release_note list"
  improved :: "release_note list"
  notes_fixes :: "release_note list"
  notes_other :: "release_note list"

text \<open>The object \<^verbatim>\<open>data\<close> built from one issue, once \<^verbatim>\<open>i.fields\<close> and
  \<^verbatim>\<open>i.fields.issuetype\<close> have been read.\<close>

definition data_of :: "issue \<Rightarrow> fields_obj \<Rightarrow> issuetype_obj \<Rightarrow> release_note" where
  "data_of i f t =
    \<lparr>note_id = issue_key i, note_type = issuetype_name t,
     note_description = customfield_10101 f\<rparr>"

text \<open>Reading \<^verbatim>\<open>i.fields.issuetype.name\<close> throws when a link of the chain is missing.\<close>

definition note_of :: "issue js \<Rightarrow> exn + release_note" where
  "note_of i = (case i of
      Val iss \<Rightarrow> (case issue_fields iss of
          Val f \<Rightarrow> (case issuetype f of
              Val t \<Rightarrow> Inr (data_of iss f t)
            | _ \<Rightarrow> Inl TypeError)
        | _ \<Rightarrow> Inl TypeError)
    | _ \<Rightarrow> Inl TypeError)"

definition push_note :: "release_note \<Rightarrow> release_notes \<Rightarrow> release_notes" where
  "push_note d acc =
    (if note_type d = Val ''New Feature'' then acc\<lparr>newFeatures := newFeatures acc @ [d]\<rparr>
     else if note_type d = Val ''Improvement'' then acc\<lparr>improved := improved acc @ [d]\<rparr>
     else if note_type d = Val ''Bug'' then acc\<lparr>notes_fixes := notes_fixes acc @ [d]\<rparr>
     else acc\<lparr>notes_other := notes_other acc @ [d]\<rparr>)"

text \<open>The \<^verbatim>\<open>issues.forEach\<close> of \<^verbatim>\<open>generateReleaseNotes\<close> over the four arrays.\<close>

fun categorise :: "issue js list \<Rightarrow> release_notes \<Rightarrow> exn + release_notes" where
  "categorise [] acc = Inr acc"
| "categorise (i # is) acc =
    (case note_of i of Inl e \<Rightarrow> Inl e | Inr d \<Rightarrow> categorise is (push_note d acc))"

text \<open>In the two handlers below \<open>None\<close> is the \<^verbatim>\<open>return\<close> inside \<^verbatim>\<open>catch\<close>.\<close>

definition generateReleaseNotes :: "env \<Rightarrow> string \<Rightarrow> release_notes js io" where
  "generateReleaseNotes E version =
    bind (try_catch
            (bind (getIssuesByFixVersion E version) (\<lambda>found. return (Some found)))
            (\<lambda>e. bind (console_log (chalk E [Red] (show_exn E e))) (\<lambda>_. return None)))
      (\<lambda>r. case r of
          None \<Rightarrow> return Null
        | Some found \<Rightarrow> (case found of
            Val (i # is) \<Rightarrow>
              (case categorise (i # is)
                      \<lparr>notes_version = version, newFeatures = [], improved = [],
                       notes_fixes = [], notes_other = []\<rparr> of
                 Inl e \<Rightarrow> throw e
               | Inr notes \<Rightarrow> return (Val notes))
          | _ \<Rightarrow> return Null))"

section \<open>Issue detail and comments\<close>








section \<open>Set-Version\<close>

definition CV_BOARD_ID :: string where
  "CV_BOARD_ID = ''14''"

definition CV_PROJECT_ID :: string where
  "CV_PROJECT_ID = ''10025''"

definition isIssueClosed :: "issue js \<Rightarrow> bool" where
  "isIssueClosed issue = (case issue of
      Val i \<Rightarrow> (case issue_fields i of
          Val f \<Rightarrow> (case status f of
              Val st \<Rightarrow> status_name st = Val ''Closed''
            | _ \<Rightarrow> False)
        | _ \<Rightarrow> False)
    | _ \<Rightarrow> False)"

definition doesIssueHaveFixVersion :: "issue js \<Rightarrow> bool" where
  "doesIssueHaveFixVersion issue = (case issue of
      Val i \<Rightarrow> (case issue_fields i of
          Val f \<Rightarrow> (case fixVersions f of
              Val vs \<Rightarrow> length vs > 0
            | _ \<Rightarrow> False)
        | _ \<Rightarrow> False)
    | _ \<Rightarrow> False)"

text \<open>The first loop of \<^verbatim>\<open>setVersion\<close>: the first version \<^verbatim>\<open>v\<close> with
  \<^verbatim>\<open>v && v.name == version\<close>.\<close>

fun findVersion :: "version js list \<Rightarrow> string \<Rightarrow> version option" where
  "findVersion [] version = None"
| "findVersion (v # vs) version =
    (case v of
      Val ver \<Rightarrow> (if version_name ver = Val version then Some ver else findVersion vs version)
    | _ \<Rightarrow> findVersion vs version)"

text \<open>The second loop, over the sprint's issues, from a given \<^verbatim>\<open>updatedCount\<close>; it
  returns the count it ends with.\<close>

fun updateIssues :: "env \<Rightarrow> version list \<Rightarrow> issue js list \<Rightarrow> nat \<Rightarrow> nat io" where
  "updateIssues E fv [] updatedCount = return updatedCount"
| "updateIssues E fv (issue # rest) updatedCount =
    (if \<not> isIssueClosed issue \<and> \<not> doesIssueHaveFixVersion issue
     then (case issue of
         Val i \<Rightarrow>
           bind (request (UpdateIssue (issue_id i) fv) (updateIssue E (issue_id i) fv)) (\<lambda>_.
           bind (console_log (chalk E [Green] (TAB @ str (issue_key i)))) (\<lambda>_.
           updateIssues E fv rest (updatedCount + 1)))
       | _ \<Rightarrow> throw TypeError)
     else (case issue of
         Val i \<Rightarrow>
           bind (console_log (chalk E [Yellow]
                   (TAB @ str (issue_key i) @ '' already has a version or is closed''))) (\<lambda>_.
           updateIssues E fv rest updatedCount)
       | _ \<Rightarrow> throw TypeError))"

definition tally :: "env \<Rightarrow> nat \<Rightarrow> nat \<Rightarrow> string" where
  "tally E updatedCount issueCount =
    chalk E [Bold, Underline, Green]
      (NL @ ''Updated '' @ str_nat updatedCount @ '' issues out of '' @ str_nat issueCount
        @ '' total issues.'' @ NL)"

text \<open>\<^verbatim>\<open>setVersion\<close> once the active sprint is known.\<close>

definition setVersionInSprint :: "env \<Rightarrow> string \<Rightarrow> int \<Rightarrow> unit js io" where
  \<open>setVersionInSprint E version sid =
    bind (request (GetBoardIssuesForSprint CV_BOARD_ID sid)
            (getBoardIssuesForSprint E CV_BOARD_ID sid)) (\<lambda>resp.
    bind (request (GetVersions CV_PROJECT_ID) (getVersions E CV_PROJECT_ID)) (\<lambda>versions.
      case findVersion (case versions of Val vs \<Rightarrow> vs | _ \<Rightarrow> []) version of
        None \<Rightarrow>
          bind (console_log (chalk E [Bold, Red] (''Version "'' @ version @ ''" not found'')))
            (\<lambda>_. return Null)
      | Some versionObj \<Rightarrow> (case resp of
          Val r \<Rightarrow>
            (let found = (case sprint_issues r of Val l \<Rightarrow> l | _ \<Rightarrow> []) in
             bind (updateIssues E [versionObj] found 0) (\<lambda>updatedCount.
             bind (console_log (tally E updatedCount (length found))) (\<lambda>_.
             return Undefined)))
        | _ \<Rightarrow> throw TypeError)))\<close>

definition setVersion :: "env \<Rightarrow> string \<Rightarrow> string js \<Rightarrow> unit js io" where
  "setVersion E version sprintId =
    bind (console_log (chalk E [Bold, Underline]
            (NL @ ''Setting fix version to: '' @ version @ NL))) (\<lambda>_.
    bind (request (GetAllSprints CV_BOARD_ID 0 50 ''active'')
            (getAllSprints E CV_BOARD_ID 0 50 ''active'')) (\<lambda>sprints.
      case sprints of
        Val s \<Rightarrow> (case sprint_values s of
            Val vals \<Rightarrow>
              (let notFound = bind (console_log (chalk E [Bold, Red] ''Active sprint not found''))
                                (\<lambda>_. return Null)
               in case (case vals of [] \<Rightarrow> Undefined | x # _ \<Rightarrow> x) of
                    Val activeSprint \<Rightarrow> (case sprint_id activeSprint of
                        Val sid \<Rightarrow> (if sid \<noteq> 0 then setVersionInSprint E version sid
                                    else notFound)
                      | _ \<Rightarrow> notFound)
                  | _ \<Rightarrow> notFound)
          | _ \<Rightarrow> throw TypeError)
      | _ \<Rightarrow> throw TypeError))"

text \<open>
  Not from the source: the number that a string of decimal digits denotes, used to say
  that the figures of the tally read back as the counts.
\<close>

definition decimal :: "string \<Rightarrow> nat" where
  "decimal s = foldl (\<lambda>a c. 10 * a + length (takeWhile (\<lambda>d. d \<noteq> c) ''0123456789'')) 0 s"

text \<open>The calls that write to the tracker's issues, for counting them in a call log.\<close>

fun is_update :: "call \<Rightarrow> bool" where
  "is_update (UpdateIssue _ _) = True"
| "is_update _ = False"

section \<open>Example trackers\<close>

text \<open>
  Concrete inputs on which the theorems below are instantiated: a tracker that is
  down (every request is rejected) and one holding three issues of release 1.0, P-1
  "Resolved" with a "Close Issue" transition, P-2 "Closed" and P-3 "Open", four
  issues of release 2.0, two "Resolved" issues of release 3.0 and none of release 0.9. Styling is the identity, so that a
  line reads as its text.
\<close>

definition demo_fields :: "string \<Rightarrow> string \<Rightarrow> fields_obj" where
  "demo_fields st ty =
    \<lparr>summary = Val ''Summary'', issuetype = Val \<lparr>issuetype_name = Val ty\<rparr>,
     assignee = Null, status = Val \<lparr>status_name = Val st\<rparr>, created = Val ''2019-01-01'',
     fixVersions = Val [], customfield_10022 = Undefined, labels = Val [],
     description = Null, comment = Undefined, customfield_10101 = Val ''Notes''\<rparr>"

definition demo_issue :: "string \<Rightarrow> string \<Rightarrow> string \<Rightarrow> issue" where
  "demo_issue k st ty =
    \<lparr>issue_id = Val (''1'' @ k), issue_key = Val k, issue_fields = Val (demo_fields st ty)\<rparr>"

text \<open>An issue as \<open>demo_issue\<close> makes it, already carrying fix-version 0.9.\<close>

definition versioned_issue :: "string \<Rightarrow> string \<Rightarrow> issue" where
  "versioned_issue k st =
    \<lparr>issue_id = Val (''1'' @ k), issue_key = Val k,
     issue_fields = Val ((demo_fields st ''Bug'')
       \<lparr>fixVersions := Val [\<lparr>version_id = Val ''99'', version_name = Val ''0.9''\<rparr>]\<rparr>)\<rparr>"

definition down_env :: env where
  "down_env =
    \<lparr>chalk = (\<lambda>_ s. s), moment_format = str, show_exn = (\<lambda>_. ''Error''),
     searchJira = (\<lambda>_. Inl (RequestFailed (Val [''Service Unavailable'']))),
     findIssue = (\<lambda>_. Inl (RequestFailed (Val [''Service Unavailable'']))),
     listTransitions = (\<lambda>_. Inl (RequestFailed Undefined)),
     transitionIssue = (\<lambda>_ _. Inl (RequestFailed Undefined)),
     getAllSprints = (\<lambda>_ _ _ _. Inl (RequestFailed Undefined)),
     getBoardIssuesForSprint = (\<lambda>_ _. Inl (RequestFailed Undefined)),
     getVersions = (\<lambda>_. Inl (RequestFailed Undefined)),
     updateIssue = (\<lambda>_ _. Inl (RequestFailed Undefined)),
     arrivals = []\<rparr>"

definition demo_env :: env where
  "demo_env = down_env
    \<lparr>searchJira := (\<lambda>q. if q = ''fixVersion=1.0''
        then Inr (Val \<lparr>issues = Val [Val (demo_issue ''P-1'' ''Resolved'' ''New Feature''),
                                    Val (demo_issue ''P-2'' ''Closed'' ''Bug''),
                                    Val (demo_issue ''P-3'' ''Open'' ''Weird'')]\<rparr>)
        else if q = ''fixVersion=2.0''
        then Inr (Val \<lparr>issues = Val [Val (demo_issue ''Q-1'' ''Closed'' ''New Feature''),
                                    Val (demo_issue ''Q-2'' ''Closed'' ''Bug''),
                                    Val (demo_issue ''Q-3'' ''Closed'' ''Weird''),
                                    Val (demo_issue ''Q-4'' ''Closed'' ''Improvement'')]\<rparr>)
        else if q = ''fixVersion=3.0''
        then Inr (Val \<lparr>issues = Val [Val (demo_issue ''R-1'' ''Resolved'' ''Bug''),
                                    Val (demo_issue ''R-2'' ''Resolved'' ''Bug'')]\<rparr>)
        else if q = ''fixVersion=0.9'' then Inr (Val \<lparr>issues = Val []\<rparr>)
        else Inl (RequestFailed (Val [''Bad query'']))),
     listTransitions := (\<lambda>k. if k = ''P-1'' \<or> k = ''R-1'' \<or> k = ''R-2''
        then Inr (Val \<lparr>transitions = Val [\<lparr>transition_id = Val ''2'',
                                            transition_name = Val ''Close Issue''\<rparr>]\<rparr>)
        else Inr (Val \<lparr>transitions = Val []\<rparr>)),
     transitionIssue := (\<lambda>_ _. Inr ()),
     getAllSprints := (\<lambda>_ _ _ _. Inr (Val \<lparr>sprint_values = Val [Val \<lparr>sprint_id = Val 7\<rparr>]\<rparr>)),
     getBoardIssuesForSprint := (\<lambda>_ _. Inr (Val \<lparr>sprint_issues =
        Val [Val (demo_issue ''P-1'' ''Resolved'' ''New Feature''),
             Val (demo_issue ''P-2'' ''Closed'' ''Bug''),
             Val (versioned_issue ''P-5'' ''Open'')]\<rparr>)),
     getVersions := (\<lambda>_. Inr (Val [Val \<lparr>version_id = Val ''100'', version_name = Val ''1.0''\<rparr>,
                                    Null,
                                    Val \<lparr>version_id = Val ''101'', version_name = Val ''RC1''\<rparr>,
                                    Val \<lparr>version_id = Val ''102'', version_name = Val ''1.0''\<rparr>])),
     updateIssue := (\<lambda>_ _. Inr ())\<rparr>"

text \<open>An issue as \<open>demo_issue\<close> makes it, without the \<^verbatim>\<open>issuetype\<close> property.\<close>

definition untyped_issue :: "string \<Rightarrow> string \<Rightarrow> issue" where
  "untyped_issue k st =
    \<lparr>issue_id = Val (''1'' @ k), issue_key = Val k,
     issue_fields = Val ((demo_fields st [])\<lparr>issuetype := Undefined\<rparr>)\<rparr>"

definition untyped_env :: env where
  "untyped_env = demo_env
    \<lparr>searchJira := (\<lambda>_. Inr (Val \<lparr>issues = Val [Val (demo_issue ''P-1'' ''Closed'' ''Bug''),
                                                Val (untyped_issue ''P-2'' ''Closed'')]\<rparr>))\<rparr>"

text \<open>A record that has a key and nothing else.\<close>

definition bare_issue :: issue where
  "bare_issue = \<lparr>issue_id = Val ''1P-1'', issue_key = Val ''P-1'', issue_fields = Undefined\<rparr>"

definition bare_env :: env where
  "bare_env = demo_env
    \<lparr>searchJira := (\<lambda>_. Inr (Val \<lparr>issues = Val [Val bare_issue]\<rparr>))\<rparr>"

definition idle_env :: env where
  "idle_env = demo_env
    \<lparr>getAllSprints := (\<lambda>_ _ _ _. Inr (Val \<lparr>sprint_values = Val []\<rparr>))\<rparr>"

definition flaky_env :: env where
  "flaky_env = demo_env\<lparr>listTransitions := (\<lambda>_. Inl (RequestFailed Undefined))\<rparr>"

text \<open>
  Not from the source: JavaScript's \<^verbatim>\<open>toLowerCase\<close> on ASCII letters, used only to
  say of two status names that they differ in letter case alone.
\<close>

definition toLowerCase :: "string \<Rightarrow> string" where
  "toLowerCase s = map (\<lambda>c.
      case map_of (zip ''ABCDEFGHIJKLMNOPQRSTUVWXYZ'' ''abcdefghijklmnopqrstuvwxyz'') c of
        Some l \<Rightarrow> l
      | None \<Rightarrow> c) s"

text \<open>An issue as \<open>demo_issue\<close> makes it, without the \<^verbatim>\<open>status\<close> property.\<close>

definition statusless_issue :: "string \<Rightarrow> issue" where
  "statusless_issue k =
    \<lparr>issue_id = Val (''1'' @ k), issue_key = Val k,
     issue_fields = Val ((demo_fields [] ''Bug'')\<lparr>status := Undefined\<rparr>)\<rparr>"

definition statusless_env :: env where
  "statusless_env = demo_env
    \<lparr>searchJira := (\<lambda>_. Inr (Val \<lparr>issues = Val [Val (statusless_issue ''P-1''),
                                                Val (demo_issue ''P-2'' ''Closed'' ''Bug'')]\<rparr>))\<rparr>"

section \<open>Shared lemmas\<close>

lemmas io_defs = return_def throw_def console_log_def request_def bind_def try_catch_def
  calls_of_def output_of_def outcome_of_def

lemmas demo_defs = demo_env_def down_env_def demo_issue_def demo_fields_def

lemmas join_defs = Promise_all_def task_of_def start_def arrive_def finish_def settle_def

lemma calls_of_tuple: "calls_of (cs, out, r) = cs"
  by (simp add: calls_of_def)

lemma output_of_tuple: "output_of (cs, out, r) = out"
  by (simp add: output_of_def)

lemma outcome_of_tuple: "outcome_of (cs, out, r) = r"
  by (simp add: outcome_of_def)

lemmas io_tuple = calls_of_tuple output_of_tuple outcome_of_tuple

lemma forEach_console_log:
  "forEach (\<lambda>x. console_log (g x)) xs = ([], map g xs, Inr ())"
  by (induction xs) (simp_all add: io_defs)

lemma forEach_search_line:
  "map issue_fields iss = map Val fs \<Longrightarrow>
   forEach search_line (map Val iss)
     = ([], map2 (\<lambda>i f. str (issue_key i) @ '' - '' @ str (summary f)) iss fs, Inr ())"
proof (induction iss arbitrary: fs)
  case Nil
  then show ?case by (simp add: io_defs)
next
  case (Cons i iss)
  then obtain f fs' where fs: "fs = f # fs'" and f: "issue_fields i = Val f"
    and rest: "map issue_fields iss = map Val fs'"
    by (cases fs) auto
  show ?case
    using Cons.IH [OF rest] f by (simp add: fs search_line_def io_defs)
qed

lemma search_found:
  assumes "query \<noteq> []" and "searchJira E query = Inr (Val r)"
    and "issues r = Val (map Val iss)" and "map issue_fields iss = map Val fs"
  shows "search E query = ([SearchJira query],
     map2 (\<lambda>i f. str (issue_key i) @ '' - '' @ str (summary f)) iss fs,
     Inr (Val (map Val iss)))"
  using assms forEach_search_line [OF assms(4)]
  by (simp add: search_def io_defs)

lemma output_of_bind:
  "output_of (bind m f)
    = output_of m @ (case outcome_of m of Inl e \<Rightarrow> [] | Inr x \<Rightarrow> output_of (f x))"
proof -
  obtain cs out r where m: "m = (cs, out, r)"
    by (metis prod_cases3)
  show ?thesis
  proof (cases r)
    case (Inl e)
    then show ?thesis by (simp add: m io_defs)
  next
    case (Inr x)
    obtain cs' out' r' where "f x = (cs', out', r')"
      by (metis prod_cases3)
    then show ?thesis by (simp add: m Inr io_defs)
  qed
qed

lemma output_of_simple:
  "output_of (return x) = []" "output_of (throw e) = []" "output_of (request c r) = []"
  by (simp_all add: io_defs)

lemma applyClose_silent: "output_of (applyClose E key t) = []"
  by (simp add: applyClose_def output_of_bind output_of_simple split: option.splits sum.splits)

lemma getTransitions_silent: "output_of (getTransitions E key) = []"
  by (simp add: getTransitions_def output_of_simple)

text \<open>The per-issue handler writes nothing, which is why the join can take it as a
  task of calls and an outcome.\<close>

lemma closeIssue_silent: "output_of (closeIssue E i) = []"
  by (simp add: closeIssue_def output_of_bind output_of_simple applyClose_silent
      getTransitions_silent Let_def split: js.splits sum.splits)

lemma foldl_settle_Some: "foldl settle (Some e) rs = Some e"
  by (induction rs) (simp_all add: settle_def)

lemma foldl_settle_None:
  "(foldl settle None rs = None) = (\<forall>r \<in> set rs. \<exists>x. r = Inr x)"
proof (induction rs)
  case Nil
  then show ?case by simp
next
  case (Cons r rs)
  show ?case
  proof (cases r)
    case (Inl e)
    then have "settle None r = Some e"
      by (simp add: settle_def)
    with Inl show ?thesis by (simp add: foldl_settle_Some)
  next
    case (Inr x)
    then have "settle None r = None"
      by (simp add: settle_def)
    with Inr Cons show ?thesis by simp
  qed
qed

lemma foldl_settle_from:
  "foldl settle rej rs = Some e \<Longrightarrow> rej = Some e \<or> Inl e \<in> set rs"
proof (induction rs arbitrary: rej)
  case Nil
  then show ?case by simp
next
  case (Cons r rs)
  from Cons.prems have "foldl settle (settle rej r) rs = Some e"
    by simp
  from Cons.IH [OF this]
  show ?case
    by (auto simp add: settle_def split: option.splits sum.splits)
qed

lemma mset_update_tl:
  "i < length ts \<Longrightarrow>
   mset (concat (map f (ts[i := y]))) + mset (f (ts ! i)) = mset (concat (map f ts)) + mset (f y)"
proof (induction ts arbitrary: i)
  case Nil
  then show ?case by simp
next
  case (Cons t ts)
  then show ?case
    by (cases i) (simp_all add: ac_simps)
qed

lemma start_made:
  "mset (concat (map (\<lambda>t. take 1 (fst t)) ts)) + mset (concat (map (\<lambda>t. tl (fst t)) ts))
     = mset (concat (map fst ts))"
proof (induction ts)
  case Nil
  then show ?case by simp
next
  case (Cons t ts)
  have "mset (take 1 (fst t)) + mset (tl (fst t)) = mset (fst t)"
    by (cases "fst t") simp_all
  with Cons show ?case
    by (simp add: ac_simps)
qed


lemma arrive_invariant:
  assumes "join_inv ts s"
  shows "join_inv ts (arrive s i)"
proof -
  obtain ts' made rej where s: "s = (ts', made, rej)"
    by (cases s) auto
  from assms have i1: "map snd ts' = map snd ts"
    and i2: "mset made + mset (concat (map (\<lambda>t. tl (fst t)) ts')) = mset (concat (map fst ts))"
    and i3: "\<forall>j < length ts'. fst (ts' ! j) = []
          \<longrightarrow> (\<forall>e. snd (ts' ! j) = Inl e \<longrightarrow> rej \<noteq> None)"
    and i4: "\<forall>e. rej = Some e \<longrightarrow> Inl e \<in> set (map snd ts)"
    by (simp_all add: join_inv_def s)
  show ?thesis
  proof (cases "i < length ts'")
    case False
    with assms show ?thesis
      by (simp add: arrive_def s)
  next
    case True
    obtain cs r where t: "ts' ! i = (cs, r)"
      by (cases "ts' ! i") auto
    have "snd (ts' ! i) \<in> set (map snd ts')"
      using True by simp
    then have r: "r \<in> set (map snd ts)"
      by (simp only: i1 t snd_conv)
    have upd: "map snd (ts'[i := (cs', r)]) = map snd ts" for cs'
    proof -
      have "(map snd ts')[i := r] = map snd ts'"
        using True t by (simp add: list_update_same_conv)
      then show ?thesis
        by (simp add: map_update i1)
    qed
    show ?thesis
    proof (cases cs)
      case Nil
      with assms True t show ?thesis
        by (simp add: arrive_def s)
    next
      case (Cons c later)
      show ?thesis
      proof (cases later)
        case Nil
        with Cons True t have a: "arrive s i = (ts'[i := ([], r)], made, settle rej r)"
          by (simp add: arrive_def s)
        have "(map (\<lambda>t. tl (fst t)) ts')[i := []] = map (\<lambda>t. tl (fst t)) ts'"
          using True t Cons Nil by (simp add: list_update_same_conv)
        then have "map (\<lambda>t. tl (fst t)) (ts'[i := ([], r)]) = map (\<lambda>t. tl (fst t)) ts'"
          by (simp add: map_update)
        with i2 have 2: "mset made + mset (concat (map (\<lambda>t. tl (fst t)) (ts'[i := ([], r)])))
            = mset (concat (map fst ts))"
          by simp
        have 3: "\<forall>j < length (ts'[i := ([], r)]). fst (ts'[i := ([], r)] ! j) = []
            \<longrightarrow> (\<forall>e. snd (ts'[i := ([], r)] ! j) = Inl e \<longrightarrow> settle rej r \<noteq> None)"
          using i3 True
          by (auto simp add: nth_list_update settle_def split: option.splits)
        have 4: "\<forall>e. settle rej r = Some e \<longrightarrow> Inl e \<in> set (map snd ts)"
          using i4 r by (force simp add: settle_def split: option.splits sum.splits)
        show ?thesis
          unfolding a join_inv_def using upd [of "[]"] 2 3 4 by simp
      next
        case (Cons c' rest)
        with \<open>cs = c # later\<close> True t
        have a: "arrive s i = (ts'[i := (later, r)], made @ [c'], rej)"
          by (simp add: arrive_def s)
        have "mset (concat (map (\<lambda>t. tl (fst t)) (ts'[i := (later, r)])))
              + mset (tl (fst (ts' ! i)))
            = mset (concat (map (\<lambda>t. tl (fst t)) ts')) + mset (tl (fst (later, r)))"
          using True by (rule mset_update_tl)
        then have x: "mset (concat (map (\<lambda>t. tl (fst t)) (ts'[i := (later, r)]))) + {#c'#}
            = mset (concat (map (\<lambda>t. tl (fst t)) ts'))"
          using t \<open>cs = c # later\<close> Cons by simp
        have "mset (made @ [c'])
              + mset (concat (map (\<lambda>t. tl (fst t)) (ts'[i := (later, r)])))
            = mset made
              + (mset (concat (map (\<lambda>t. tl (fst t)) (ts'[i := (later, r)]))) + {#c'#})"
          by simp
        also have "\<dots> = mset made + mset (concat (map (\<lambda>t. tl (fst t)) ts'))"
          by (simp only: x)
        finally have 2: "mset (made @ [c'])
              + mset (concat (map (\<lambda>t. tl (fst t)) (ts'[i := (later, r)])))
            = mset (concat (map fst ts))"
          by (simp only: i2)
        have 3: "\<forall>j < length (ts'[i := (later, r)]). fst (ts'[i := (later, r)] ! j) = []
            \<longrightarrow> (\<forall>e. snd (ts'[i := (later, r)] ! j) = Inl e \<longrightarrow> rej \<noteq> None)"
          using i3 True Cons
          by (auto simp add: nth_list_update)
        show ?thesis
          unfolding a join_inv_def using upd [of later] 2 3 i4 by simp
      qed
    qed
  qed
qed

lemma arrivals_invariant: "join_inv ts s \<Longrightarrow> join_inv ts (foldl arrive s order)"
  by (induction order arbitrary: s) (simp_all add: arrive_invariant)

lemma start_invariant: "join_inv ts (start ts)"
proof -
  let ?rej = "foldl settle None (map snd (filter (\<lambda>t. fst t = []) ts))"
  have 3: "?rej \<noteq> None" if "j < length ts" and "fst (ts ! j) = []" and "snd (ts ! j) = Inl e"
    for j e
  proof -
    from that have "ts ! j \<in> set (filter (\<lambda>t. fst t = []) ts)"
      by simp
    then have "Inl e \<in> set (map snd (filter (\<lambda>t. fst t = []) ts))"
      using that(3) by force
    then show ?thesis
      by (auto simp add: foldl_settle_None)
  qed
  have 4: "Inl e \<in> set (map snd ts)" if "?rej = Some e" for e
  proof -
    from foldl_settle_from [OF that]
    have "Inl e \<in> set (map snd (filter (\<lambda>t. fst t = []) ts))"
      by simp
    then show ?thesis by auto
  qed
  have 2: "mset (concat (map (\<lambda>t. take 1 (fst t)) ts))
      + mset (concat (map (\<lambda>t. tl (fst t)) ts)) = mset (concat (map fst ts))"
    by (rule start_made)
  show ?thesis
    unfolding start_def join_inv_def using 2 3 4 by simp blast
qed

lemma Promise_all_run:
  "output_of (Promise_all order ts) = []
   \<and> mset (calls_of (Promise_all order ts)) = mset (concat (map fst ts))
   \<and> (\<forall>xs. map snd ts = map Inr xs \<longrightarrow> outcome_of (Promise_all order ts) = Inr xs)
   \<and> (\<forall>e. Inl e \<in> set (map snd ts)
        \<longrightarrow> (\<exists>e'. outcome_of (Promise_all order ts) = Inl e' \<and> Inl e' \<in> set (map snd ts)))"
proof -
  obtain ts' made rej where f: "foldl arrive (start ts) order = (ts', made, rej)"
    by (cases "foldl arrive (start ts) order") auto
  have "join_inv ts (ts', made, rej)"
    using arrivals_invariant [OF start_invariant, of ts order] by (simp only: f)
  then have 1: "map snd ts' = map snd ts"
    and 2: "mset made + mset (concat (map (\<lambda>t. tl (fst t)) ts')) = mset (concat (map fst ts))"
    and 3: "\<forall>j < length ts'. fst (ts' ! j) = []
          \<longrightarrow> (\<forall>e. snd (ts' ! j) = Inl e \<longrightarrow> rej \<noteq> None)"
    and 4: "\<forall>e. rej = Some e \<longrightarrow> Inl e \<in> set (map snd ts)"
    by (simp_all add: join_inv_def)
  let ?rej = "foldl settle rej (map snd (filter (\<lambda>t. fst t \<noteq> []) ts'))"
  have p: "Promise_all order ts = (made @ concat (map (\<lambda>t. tl (fst t)) ts'), [],
      case ?rej of Some e \<Rightarrow> Inl e | None \<Rightarrow> Inr (fulfilled (map snd ts)))"
    by (simp add: Promise_all_def f finish_def)
  have "set (map snd (filter (\<lambda>t. fst t \<noteq> []) ts')) \<subseteq> set (map snd ts')"
    by auto
  then have sub: "set (map snd (filter (\<lambda>t. fst t \<noteq> []) ts')) \<subseteq> set (map snd ts)"
    by (simp only: 1)
  have a: "outcome_of (Promise_all order ts) = Inr xs" if "map snd ts = map Inr xs" for xs
  proof -
    from that 4 have "rej = None"
      by (cases rej) auto
    moreover have "\<forall>r \<in> set (map snd (filter (\<lambda>t. fst t \<noteq> []) ts')). \<exists>x. r = Inr x"
    proof
      fix r
      assume "r \<in> set (map snd (filter (\<lambda>t. fst t \<noteq> []) ts'))"
      with sub have "r \<in> set (map Inr xs)"
        by (auto simp only: that)
      then show "\<exists>x. r = Inr x"
        by auto
    qed
    ultimately have "?rej = None"
      by (simp only: foldl_settle_None)
    moreover have "fulfilled (map Inr xs) = xs"
      by (induction xs) simp_all
    ultimately show ?thesis
      by (simp add: p that io_tuple)
  qed
  have b: "\<exists>e'. outcome_of (Promise_all order ts) = Inl e' \<and> Inl e' \<in> set (map snd ts)"
    if "Inl e \<in> set (map snd ts)" for e
  proof -
    from that have "Inl e \<in> set (map snd ts')"
      by (simp only: 1)
    then obtain t where "t \<in> set ts'" and "snd t = Inl e"
      by auto
    then obtain j where j: "j < length ts'" "snd (ts' ! j) = Inl e"
      by (auto simp add: in_set_conv_nth)
    have "?rej \<noteq> None"
    proof (cases "fst (ts' ! j) = []")
      case True
      with 3 j obtain e0 where "rej = Some e0"
        by auto
      then show ?thesis
        by (simp add: foldl_settle_Some)
    next
      case False
      with j have "ts' ! j \<in> set (filter (\<lambda>t. fst t \<noteq> []) ts')"
        by simp
      then have m: "Inl e \<in> set (map snd (filter (\<lambda>t. fst t \<noteq> []) ts'))"
        using j(2) by force
      show ?thesis
      proof (cases rej)
        case None
        from m have "\<not> (\<forall>r \<in> set (map snd (filter (\<lambda>t. fst t \<noteq> []) ts')). \<exists>x. r = Inr x)"
          by force
        with None show ?thesis
          by (simp only: foldl_settle_None) simp
      next
        case (Some e0)
        then show ?thesis
          by (simp add: foldl_settle_Some)
      qed
    qed
    then obtain e' where e': "?rej = Some e'"
      by auto
    then have "rej = Some e' \<or> Inl e' \<in> set (map snd (filter (\<lambda>t. fst t \<noteq> []) ts'))"
      by (rule foldl_settle_from)
    with 4 sub have "Inl e' \<in> set (map snd ts)"
      by auto
    with e' show ?thesis
      by (auto simp add: p io_tuple)
  qed
  have c: "mset (calls_of (Promise_all order ts)) = mset (concat (map fst ts))"
    using 2 by (simp add: p io_tuple)
  have d: "output_of (Promise_all order ts) = []"
    by (simp add: p io_tuple)
  from a b c d show ?thesis
    by blast
qed

lemma closeIssues_run:
  assumes "version \<noteq> []"
    and "searchJira E (''fixVersion='' @ version) = Inr (Val r)"
    and "issues r = Val (map Val iss)" and "map issue_fields iss = map Val fs"
  shows "(\<exists>cs. calls_of (closeIssues E version) = SearchJira (''fixVersion='' @ version) # cs
          \<and> mset cs = mset (concat (map (\<lambda>i. calls_of (closeIssue E (Val i))) iss)))
    \<and> (\<forall>ls. map (\<lambda>i. outcome_of (closeIssue E (Val i))) iss = map Inr ls
         \<longrightarrow> output_of (closeIssues E version)
               = map2 (\<lambda>i f. str (issue_key i) @ '' - '' @ str (summary f)) iss fs @ map str ls
             \<and> outcome_of (closeIssues E version) = Inr ())
    \<and> ((\<exists>i \<in> set iss. \<exists>e. outcome_of (closeIssue E (Val i)) = Inl e)
         \<longrightarrow> output_of (closeIssues E version)
               = map2 (\<lambda>i f. str (issue_key i) @ '' - '' @ str (summary f)) iss fs
             \<and> (\<exists>e. outcome_of (closeIssues E version) = Inl e
                  \<and> (\<exists>i \<in> set iss. outcome_of (closeIssue E (Val i)) = Inl e)))"
proof -
  let ?ts = "map (\<lambda>i. task_of (closeIssue E (Val i))) iss"
  let ?listing = "map2 (\<lambda>i f. str (issue_key i) @ '' - '' @ str (summary f)) iss fs"
  have s: "getIssuesByFixVersion E version = ([SearchJira (''fixVersion='' @ version)],
     ?listing, Inr (Val (map Val iss)))"
    using assms search_found [of "''fixVersion='' @ version" E r iss fs]
    by (simp add: getIssuesByFixVersion_def)
  obtain pcs pout pr where p: "Promise_all (arrivals E) ?ts = (pcs, pout, pr)"
    by (cases "Promise_all (arrivals E) ?ts") auto
  have f: "map fst ?ts = map (\<lambda>i. calls_of (closeIssue E (Val i))) iss"
    and o: "map snd ?ts = map (\<lambda>i. outcome_of (closeIssue E (Val i))) iss"
    by (simp_all add: task_of_def)
  note run = Promise_all_run [of "arrivals E" ?ts, unfolded p io_tuple f o]
  have u: "closeIssues E version =
    (SearchJira (''fixVersion='' @ version) # pcs,
     ?listing @ (case pr of Inl e \<Rightarrow> [] | Inr ls \<Rightarrow> map str ls),
     (case pr of Inl e \<Rightarrow> Inl e | Inr ls \<Rightarrow> Inr ()))"
    using run p
    by (cases pr) (simp_all add: closeIssues_def s bind_def forEach_console_log comp_def)
  have 1: "\<exists>cs. calls_of (closeIssues E version) = SearchJira (''fixVersion='' @ version) # cs
          \<and> mset cs = mset (concat (map (\<lambda>i. calls_of (closeIssue E (Val i))) iss))"
    using run by (simp add: u io_tuple)
  have 2: "output_of (closeIssues E version) = ?listing @ map str ls
             \<and> outcome_of (closeIssues E version) = Inr ()"
    if "map (\<lambda>i. outcome_of (closeIssue E (Val i))) iss = map Inr ls" for ls
  proof -
    from run that have "pr = Inr ls"
      by blast
    then show ?thesis
      by (simp add: u io_tuple)
  qed
  have 3: "output_of (closeIssues E version) = ?listing
             \<and> (\<exists>e. outcome_of (closeIssues E version) = Inl e
                  \<and> (\<exists>i \<in> set iss. outcome_of (closeIssue E (Val i)) = Inl e))"
    if "\<exists>i \<in> set iss. \<exists>e. outcome_of (closeIssue E (Val i)) = Inl e"
  proof -
    from that obtain e where "Inl e \<in> set (map (\<lambda>i. outcome_of (closeIssue E (Val i))) iss)"
      by force
    with run obtain e' where e': "pr = Inl e'"
      "Inl e' \<in> set (map (\<lambda>i. outcome_of (closeIssue E (Val i))) iss)"
      by blast
    from e'(2) have "\<exists>i \<in> set iss. outcome_of (closeIssue E (Val i)) = Inl e'"
      by auto
    with e'(1) show ?thesis
      by (simp add: u io_tuple)
  qed
  from 1 2 3 show ?thesis
    by blast
qed

lemma categorise_filter:
  "map note_of is = map Inr ds \<Longrightarrow>
   \<exists>n. categorise is acc = Inr n
     \<and> notes_version n = notes_version acc
     \<and> newFeatures n = newFeatures acc @ filter (\<lambda>d. note_type d = Val ''New Feature'') ds
     \<and> improved n = improved acc
          @ filter (\<lambda>d. note_type d = Val ''Improvement'') ds
     \<and> notes_fixes n = notes_fixes acc
          @ filter (\<lambda>d. note_type d = Val ''Bug'') ds
     \<and> notes_other n = notes_other acc
          @ filter (\<lambda>d. note_type d \<noteq> Val ''New Feature'' \<and> note_type d \<noteq> Val ''Improvement''
                       \<and> note_type d \<noteq> Val ''Bug'') ds"
proof (induction "is" arbitrary: ds acc)
  case Nil
  then show ?case by simp
next
  case (Cons i "is")
  then obtain d ds' where ds: "ds = d # ds'" and d: "note_of i = Inr d"
    and rest: "map note_of is = map Inr ds'"
    by (cases ds) auto
  from Cons.IH [OF rest, of "push_note d acc"]
  show ?case
    by (auto simp add: ds d push_note_def)
qed


lemma map_note_of:
  "map issue_fields iss = map Val fs \<Longrightarrow> map issuetype fs = map Val ts \<Longrightarrow>
   map note_of (map Val iss) = map Inr (map (\<lambda>(i, f, t). data_of i f t) (zip iss (zip fs ts)))"
proof (induction iss arbitrary: fs ts)
  case Nil
  then show ?case by simp
next
  case (Cons i iss)
  then obtain f fs' where fs: "fs = f # fs'" and f: "issue_fields i = Val f"
    and rest: "map issue_fields iss = map Val fs'"
    by (cases fs) auto
  with Cons.prems(2) obtain t ts' where ts: "ts = t # ts'" and t: "issuetype f = Val t"
    and rest': "map issuetype fs' = map Val ts'"
    by (cases ts) auto
  show ?case
    using Cons.IH [OF rest rest'] f t by (simp add: fs ts note_of_def data_of_def)
qed

lemma generateReleaseNotes_found:
  assumes "version \<noteq> []"
    and "searchJira E (''fixVersion='' @ version) = Inr (Val r)"
    and "issues r = Val (map Val iss)" and "map issue_fields iss = map Val fs"
  shows "generateReleaseNotes E version =
    ([SearchJira (''fixVersion='' @ version)],
     map2 (\<lambda>i f. str (issue_key i) @ '' - '' @ str (summary f)) iss fs,
     (if iss = [] then Inr Null
      else case categorise (map Val iss)
                  \<lparr>notes_version = version, newFeatures = [], improved = [],
                   notes_fixes = [], notes_other = []\<rparr> of
             Inl e \<Rightarrow> Inl e
           | Inr notes \<Rightarrow> Inr (Val notes)))"
proof -
  have s: "getIssuesByFixVersion E version = ([SearchJira (''fixVersion='' @ version)],
     map2 (\<lambda>i f. str (issue_key i) @ '' - '' @ str (summary f)) iss fs,
     Inr (Val (map Val iss)))"
    using assms search_found [of "''fixVersion='' @ version" E r iss fs]
    by (simp add: getIssuesByFixVersion_def)
  show ?thesis
  proof (cases iss)
    case Nil
    with s show ?thesis
      by (simp add: generateReleaseNotes_def io_defs)
  next
    case (Cons i iss')
    with s show ?thesis
      by (simp add: generateReleaseNotes_def io_defs split: sum.splits)
  qed
qed

lemma generateReleaseNotes_filters:
  assumes "version \<noteq> []"
    and "searchJira E (''fixVersion='' @ version) = Inr (Val r)"
    and "issues r = Val (map Val iss)" and "map issue_fields iss = map Val fs"
    and "map issuetype fs = map Val ts"
    and "ds = map (\<lambda>(i, f, t). data_of i f t) (zip iss (zip fs ts))"
    and ne: "iss \<noteq> []"
  shows "\<exists>n. outcome_of (generateReleaseNotes E version) = Inr (Val n)
          \<and> notes_version n = version
          \<and> newFeatures n = filter (\<lambda>d. note_type d = Val ''New Feature'') ds
          \<and> improved n = filter (\<lambda>d. note_type d = Val ''Improvement'') ds
          \<and> notes_fixes n = filter (\<lambda>d. note_type d = Val ''Bug'') ds
          \<and> notes_other n = filter (\<lambda>d. note_type d \<noteq> Val ''New Feature''
                \<and> note_type d \<noteq> Val ''Improvement'' \<and> note_type d \<noteq> Val ''Bug'') ds"
proof -
  note u = generateReleaseNotes_found [OF assms(1-4)]
  have m: "map note_of (map Val iss) = map Inr ds"
    using map_note_of [OF assms(4,5)] assms(6) by simp
  obtain n where n: "categorise (map Val iss)
        \<lparr>notes_version = version, newFeatures = [], improved = [],
         notes_fixes = [], notes_other = []\<rparr> = Inr n"
    and v: "notes_version n = version"
    and c1: "newFeatures n = filter (\<lambda>d. note_type d = Val ''New Feature'') ds"
    and c2: "improved n = filter (\<lambda>d. note_type d = Val ''Improvement'') ds"
    and c3: "notes_fixes n = filter (\<lambda>d. note_type d = Val ''Bug'') ds"
    and c4: "notes_other n = filter (\<lambda>d. note_type d \<noteq> Val ''New Feature''
                \<and> note_type d \<noteq> Val ''Improvement'' \<and> note_type d \<noteq> Val ''Bug'') ds"
    using categorise_filter [OF m, of "\<lparr>notes_version = version, newFeatures = [], improved = [],
         notes_fixes = [], notes_other = []\<rparr>"] by auto
  show ?thesis
    using ne n v c1 c2 c3 c4 by (simp add: u io_tuple)
qed

lemma generateReleaseNotes_rows:
  assumes "version \<noteq> []"
    and "searchJira E (''fixVersion='' @ version) = Inr (Val r)"
    and "issues r = Val (map Val iss)" and "map issue_fields iss = map Val fs"
    and "map issuetype fs = map Val ts"
    and "iss \<noteq> []"
    and "rows = zip iss (zip fs ts)"
    and "mk = (\<lambda>(i, f, t). \<lparr>note_id = issue_key i, note_type = issuetype_name t,
                              note_description = customfield_10101 f\<rparr>)"
  shows "\<exists>n. outcome_of (generateReleaseNotes E version) = Inr (Val n)
          \<and> notes_version n = version
          \<and> newFeatures n
              = map mk (filter (\<lambda>(i, f, t). issuetype_name t = Val ''New Feature'') rows)
          \<and> improved n
              = map mk (filter (\<lambda>(i, f, t). issuetype_name t = Val ''Improvement'') rows)
          \<and> notes_fixes n
              = map mk (filter (\<lambda>(i, f, t). issuetype_name t = Val ''Bug'') rows)
          \<and> notes_other n
              = map mk (filter (\<lambda>(i, f, t). issuetype_name t \<noteq> Val ''New Feature''
                  \<and> issuetype_name t \<noteq> Val ''Improvement''
                  \<and> issuetype_name t \<noteq> Val ''Bug'') rows)"
proof -
  have d: "(\<lambda>(i, f, t). data_of i f t) = mk"
    by (simp add: assms(8) data_of_def)
  have t: "note_type (mk x) = issuetype_name (snd (snd x))" for x
    by (simp add: assms(8) case_prod_unfold)
  obtain n where n: "outcome_of (generateReleaseNotes E version) = Inr (Val n)"
      "notes_version n = version"
      "newFeatures n = filter (\<lambda>d. note_type d = Val ''New Feature'') (map mk rows)"
      "improved n = filter (\<lambda>d. note_type d = Val ''Improvement'') (map mk rows)"
      "notes_fixes n = filter (\<lambda>d. note_type d = Val ''Bug'') (map mk rows)"
      "notes_other n = filter (\<lambda>d. note_type d \<noteq> Val ''New Feature''
                \<and> note_type d \<noteq> Val ''Improvement'' \<and> note_type d \<noteq> Val ''Bug'') (map mk rows)"
    using generateReleaseNotes_filters [OF assms(1-5) refl assms(6)]
    unfolding d assms(7) by blast
  show ?thesis
    using n(1,2)
    by (intro exI [of _ n]) (simp add: n(3-6) filter_map comp_def t case_prod_unfold)
qed

lemma filter_four_rows:
  "length (filter (\<lambda>(i, f, t). issuetype_name t = Val ''New Feature'') xs)
      + length (filter (\<lambda>(i, f, t). issuetype_name t = Val ''Improvement'') xs)
      + length (filter (\<lambda>(i, f, t). issuetype_name t = Val ''Bug'') xs)
      + length (filter (\<lambda>(i, f, t). issuetype_name t \<noteq> Val ''New Feature''
                  \<and> issuetype_name t \<noteq> Val ''Improvement''
                  \<and> issuetype_name t \<noteq> Val ''Bug'') xs)
      = length xs"
  by (induction xs) auto

lemma bind_tuple:
  "bind (cs, out, Inr x) f = (case f x of (cs', out', r) \<Rightarrow> (cs @ cs', out @ out', r))"
  "bind (cs, out, Inl e) f = (cs, out, Inl e)"
  by (simp_all add: bind_def)

lemma updateIssues_calls:
  "\<forall>c \<in> set (calls_of (updateIssues E fv is n)).
     \<exists>i. c = UpdateIssue (issue_id i) fv \<and> Val i \<in> set is
        \<and> \<not> isIssueClosed (Val i) \<and> \<not> doesIssueHaveFixVersion (Val i)"
proof (induction "is" arbitrary: n)
  case Nil
  then show ?case by (simp add: io_defs)
next
  case (Cons issue rest)
  show ?case
  proof (cases issue)
    case (Val i)
    show ?thesis
    proof (cases "\<not> isIssueClosed issue \<and> \<not> doesIssueHaveFixVersion issue")
      case True
      obtain cs out r where u: "updateIssues E fv rest (Suc n) = (cs, out, r)"
        by (cases "updateIssues E fv rest (Suc n)") auto
      have "\<forall>c \<in> set cs. \<exists>i. c = UpdateIssue (issue_id i) fv \<and> Val i \<in> set rest
        \<and> \<not> isIssueClosed (Val i) \<and> \<not> doesIssueHaveFixVersion (Val i)"
        using Cons.IH [of "Suc n"] by (simp add: u io_tuple)
      then show ?thesis
        using True Val u
        by (cases "updateIssue E (issue_id i) fv")
          (auto simp add: request_def console_log_def bind_tuple io_tuple)
    next
      case False
      obtain cs out r where u: "updateIssues E fv rest n = (cs, out, r)"
        by (cases "updateIssues E fv rest n") auto
      have "\<forall>c \<in> set cs. \<exists>i. c = UpdateIssue (issue_id i) fv \<and> Val i \<in> set rest
        \<and> \<not> isIssueClosed (Val i) \<and> \<not> doesIssueHaveFixVersion (Val i)"
        using Cons.IH [of n] by (simp add: u io_tuple)
      then show ?thesis
        using False Val u
        by (auto simp add: console_log_def bind_tuple io_tuple)
    qed
  next
    case Undefined
    then show ?thesis
      by (simp add: isIssueClosed_def doesIssueHaveFixVersion_def throw_def io_tuple)
  next
    case Null
    then show ?thesis
      by (simp add: isIssueClosed_def doesIssueHaveFixVersion_def throw_def io_tuple)
  qed
qed


lemma updateIssues_complete:
  "updateIssues E fv is n = (cs, out, Inr m) \<Longrightarrow>
   m = n + length (filter is_update cs)
   \<and> (\<forall>i. Val i \<in> set is \<and> (isIssueClosed (Val i) \<or> doesIssueHaveFixVersion (Val i))
        \<longrightarrow> chalk E [Yellow] (TAB @ str (issue_key i) @ '' already has a version or is closed'')
              \<in> set out)"
proof (induction "is" arbitrary: n cs out)
  case Nil
  then show ?case by (simp add: io_defs)
next
  case (Cons issue rest)
  show ?case
  proof (cases issue)
    case (Val i)
    show ?thesis
    proof (cases "\<not> isIssueClosed issue \<and> \<not> doesIssueHaveFixVersion issue")
      case True
      obtain cs' out' r where u: "updateIssues E fv rest (Suc n) = (cs', out', r)"
        by (cases "updateIssues E fv rest (Suc n)") auto
      from Cons.prems True Val u have r: "r = Inr m"
        and cs: "cs = UpdateIssue (issue_id i) fv # cs'"
        and out: "out = chalk E [Green] (TAB @ str (issue_key i)) # out'"
        by (cases "updateIssue E (issue_id i) fv";
            simp add: request_def console_log_def bind_tuple)+
      from Cons.IH [of "Suc n" cs' out'] u r
      show ?thesis
        using True Val by (auto simp add: cs out)
    next
      case False
      obtain cs' out' r where u: "updateIssues E fv rest n = (cs', out', r)"
        by (cases "updateIssues E fv rest n") auto
      from Cons.prems False Val u have r: "r = Inr m" and cs: "cs = cs'"
        and out: "out = chalk E [Yellow]
            (TAB @ str (issue_key i) @ '' already has a version or is closed'') # out'"
        by (auto simp add: console_log_def bind_tuple)
      from Cons.IH [of n cs' out'] u r
      show ?thesis
        using False Val by (auto simp add: cs out)
    qed
  next
    case Undefined
    with Cons.prems show ?thesis
      by (simp add: isIssueClosed_def doesIssueHaveFixVersion_def throw_def)
  next
    case Null
    with Cons.prems show ?thesis
      by (simp add: isIssueClosed_def doesIssueHaveFixVersion_def throw_def)
  qed
qed

lemma setVersion_unfold:
  assumes "getAllSprints E CV_BOARD_ID 0 50 ''active'' = Inr (Val s)"
    and "sprint_values s = Val (Val sp # sps)"
    and "sprint_id sp = Val sid" and "sid \<noteq> 0"
    and "getBoardIssuesForSprint E CV_BOARD_ID sid = Inr (Val b)"
    and "sprint_issues b = Val is"
    and "getVersions E CV_PROJECT_ID = Inr (Val vs)"
    and "findVersion vs version = Some v"
    and "updateIssues E [v] is 0 = (cs, out, r)"
  shows "setVersion E version sprintId =
    ([GetAllSprints CV_BOARD_ID 0 50 ''active'', GetBoardIssuesForSprint CV_BOARD_ID sid,
      GetVersions CV_PROJECT_ID] @ cs,
     chalk E [Bold, Underline] (NL @ ''Setting fix version to: '' @ version @ NL) # out
       @ (case r of Inl e \<Rightarrow> [] | Inr m \<Rightarrow> [tally E m (length is)]),
     (case r of Inl e \<Rightarrow> Inl e | Inr m \<Rightarrow> Inr Undefined))"
  using assms
  by (cases r) (simp_all add: setVersion_def setVersionInSprint_def io_defs)

lemma isIssueClosed_iff:
  "isIssueClosed (Val i)
     = (\<exists>f st. issue_fields i = Val f \<and> status f = Val st \<and> status_name st = Val ''Closed'')"
  by (auto simp add: isIssueClosed_def split: js.splits)

lemma doesIssueHaveFixVersion_iff:
  "doesIssueHaveFixVersion (Val i)
     = (\<exists>f vs. issue_fields i = Val f \<and> fixVersions f = Val vs \<and> vs \<noteq> [])"
  by (auto simp add: doesIssueHaveFixVersion_def split: js.splits)

lemma decimal_digit: "k < 10 \<Longrightarrow> decimal [digit k] = k"
proof -
  assume "k < 10"
  then have "k = 0 \<or> k = 1 \<or> k = 2 \<or> k = 3 \<or> k = 4 \<or> k = 5 \<or> k = 6
    \<or> k = 7 \<or> k = 8 \<or> k = 9"
    by arith
  then show ?thesis
    by (elim disjE) (simp_all add: decimal_def digit_def)
qed

lemma decimal_snoc: "decimal (s @ [c]) = 10 * decimal s + decimal [c]"
  by (simp add: decimal_def)

lemma str_nat_decimal: "decimal (str_nat n) = n"
proof (induction n rule: str_nat.induct)
  case (1 n)
  show ?case
  proof (cases "n < 10")
    case True
    then show ?thesis
      by (simp add: decimal_digit)
  next
    case False
    have "decimal (str_nat n) = 10 * decimal (str_nat (n div 10)) + decimal [digit (n mod 10)]"
      using False by (subst str_nat.simps) (simp add: decimal_snoc)
    also have "\<dots> = 10 * (n div 10) + n mod 10"
      using "1.IH" False by (simp add: decimal_digit)
    finally show ?thesis
      by simp
  qed
qed

lemma findVersion_none:
  "(\<forall>ver. Val ver \<in> set vs \<longrightarrow> version_name ver \<noteq> Val version) \<Longrightarrow>
   findVersion vs version = None"
  by (induction vs) (auto split: js.splits)

lemma findVersion_first:
  "findVersion vs version = Some v \<Longrightarrow>
   \<exists>pre post. vs = pre @ Val v # post \<and> version_name v = Val version
     \<and> (\<forall>ver. Val ver \<in> set pre \<longrightarrow> version_name ver \<noteq> Val version)"
proof (induction vs)
  case Nil
  then show ?case by simp
next
  case (Cons x vs)
  show ?case
  proof (cases "\<exists>ver. x = Val ver \<and> version_name ver = Val version")
    case True
    with Cons.prems have "x = Val v" and "version_name v = Val version"
      by auto
    then have "x # vs = [] @ Val v # vs \<and> version_name v = Val version
      \<and> (\<forall>ver. Val ver \<in> set [] \<longrightarrow> version_name ver \<noteq> Val version)"
      by simp
    then show ?thesis by blast
  next
    case False
    with Cons.prems have "findVersion vs version = Some v"
      by (cases x) auto
    with Cons.IH obtain pre post where p: "vs = pre @ Val v # post"
      "version_name v = Val version"
      "\<forall>ver. Val ver \<in> set pre \<longrightarrow> version_name ver \<noteq> Val version"
      by blast
    with False have "x # vs = (x # pre) @ Val v # post \<and> version_name v = Val version
      \<and> (\<forall>ver. Val ver \<in> set (x # pre) \<longrightarrow> version_name ver \<noteq> Val version)"
      by auto
    then show ?thesis by blast
  qed
qed











section \<open>Close-Issues: the per-issue handler\<close>

text \<open>
  C1. An issue that passes the handler's presence check and whose status name is not
  "Resolved" costs no tracker call (neither \<open>ListTransitions\<close> nor
  \<open>TransitionIssue\<close>) and writes nothing: a status name "Closed" returns the line
  "{key} - Issue already Closed", any other name (a missing one too) returns
  "{key} - Issue not Resolved yet, can't be closed".
\<close>

theorem closeIssue_not_resolved:
  assumes "issue_key i = Val k" and "k \<noteq> []"
    and "issue_fields i = Val f" and "status f = Val st"
    and "status_name st \<noteq> Val ''Resolved''"
  shows "closeIssue E (Val i) =
    ([], [], Inr (Val (k @ '' - '' @
       (if status_name st = Val ''Closed''
        then chalk E [Yellow] ''Issue already Closed''
        else chalk E [Red] ''Issue not Resolved yet, can't be closed''))))"
  using assms by (simp add: closeIssue_def return_def)

theorem closeIssue_not_resolved_witness:
  "closeIssue demo_env (Val (demo_issue ''P-2'' ''Closed'' ''Bug''))
     = ([], [], Inr (Val ''P-2 - Issue already Closed''))
   \<and> closeIssue demo_env (Val (demo_issue ''P-3'' ''Open'' ''Weird''))
     = ([], [], Inr (Val ''P-3 - Issue not Resolved yet, can't be closed''))"
  using closeIssue_not_resolved [of "demo_issue ''P-2'' ''Closed'' ''Bug''" "''P-2''"
      "demo_fields ''Closed'' ''Bug''" "\<lparr>status_name = Val ''Closed''\<rparr>" demo_env]
    closeIssue_not_resolved [of "demo_issue ''P-3'' ''Open'' ''Weird''" "''P-3''"
      "demo_fields ''Open'' ''Weird''" "\<lparr>status_name = Val ''Open''\<rparr>" demo_env]
  by (simp add: demo_defs)

lemma applyClose_none:
  "applyClose E (Val k) None = ([], [], Inr (Val (k @ '' - ''
      @ chalk E [Red] ''Close Transition not available, reason unknown...'')))"
  by (simp add: applyClose_def return_def)

lemma applyClose_no_id:
  "\<not> truthy_str (transition_id t) \<Longrightarrow>
   applyClose E (Val k) (Some t) = ([], [], Inr (Val (k @ '' - ''
      @ chalk E [Red] ''Close Transition not available, reason unknown...'')))"
  by (simp add: applyClose_def return_def)

lemma applyClose_id:
  "transition_id t = Val tid \<Longrightarrow> tid \<noteq> [] \<Longrightarrow>
   applyClose E (Val k) (Some t) = ([TransitionIssue k tid], [],
     (case transitionIssue E k tid of
        Inl e \<Rightarrow> Inl e
      | Inr _ \<Rightarrow> Inr (Val (k @ '' - '' @ chalk E [Green] ''Closed''))))"
  by (simp add: applyClose_def io_defs split: sum.splits)

lemma closeIssue_resolved_unfold:
  assumes "issue_key i = Val k" and "k \<noteq> []"
    and "issue_fields i = Val f" and "status f = Val st"
    and "status_name st = Val ''Resolved''"
    and "listTransitions E k = Inr (Val r)" and "transitions r = Val ts"
  shows "closeIssue E (Val i) =
    (case applyClose E (Val k) (find (\<lambda>t. transition_name t = Val ''Close Issue'') ts) of
       (cs, out, res) \<Rightarrow> (ListTransitions k # cs, out, res))"
  using assms by (simp add: closeIssue_def getTransitions_def io_defs split: prod.splits)

text \<open>
  C2. For an issue that passes the presence check with status name "Resolved", the
  handler first asks the tracker for the issue's transitions. When the answer lists
  a transition named exactly "Close Issue" (\<^verbatim>\<open>find\<close> takes the first of that name)
  and it has a non-empty id, the handler makes exactly one \<open>TransitionIssue\<close> call
  with that id, and once the call succeeds returns "{key} - Closed". When no
  transition has that name, or the one found has no id, no \<open>TransitionIssue\<close> call
  is made and "{key} - Close Transition not available, reason unknown..." is returned.
\<close>

theorem closeIssue_resolved:
  assumes "issue_key i = Val k" and "k \<noteq> []"
    and "issue_fields i = Val f" and "status f = Val st"
    and "status_name st = Val ''Resolved''"
    and "listTransitions E k = Inr (Val r)" and "transitions r = Val ts"
  shows "(\<forall>t tid. find (\<lambda>t. transition_name t = Val ''Close Issue'') ts = Some t
            \<and> transition_id t = Val tid \<and> tid \<noteq> []
          \<longrightarrow> calls_of (closeIssue E (Val i)) = [ListTransitions k, TransitionIssue k tid]
            \<and> output_of (closeIssue E (Val i)) = []
            \<and> (transitionIssue E k tid = Inr ()
                \<longrightarrow> outcome_of (closeIssue E (Val i))
                      = Inr (Val (k @ '' - '' @ chalk E [Green] ''Closed''))))
       \<and> ((\<forall>t \<in> set ts. transition_name t \<noteq> Val ''Close Issue'')
            \<or> (\<exists>t. find (\<lambda>t. transition_name t = Val ''Close Issue'') ts = Some t
                  \<and> \<not> truthy_str (transition_id t))
          \<longrightarrow> closeIssue E (Val i) = ([ListTransitions k], [],
                Inr (Val (k @ '' - ''
                  @ chalk E [Red] ''Close Transition not available, reason unknown...''))))"
proof (intro conjI allI impI)
  fix t tid
  assume h: "find (\<lambda>t. transition_name t = Val ''Close Issue'') ts = Some t
            \<and> transition_id t = Val tid \<and> tid \<noteq> []"
  then have u: "closeIssue E (Val i) = (ListTransitions k # [TransitionIssue k tid], [],
     (case transitionIssue E k tid of
        Inl e \<Rightarrow> Inl e
      | Inr _ \<Rightarrow> Inr (Val (k @ '' - '' @ chalk E [Green] ''Closed''))))"
    using closeIssue_resolved_unfold [OF assms] applyClose_id [of t tid E k] by simp
  show "calls_of (closeIssue E (Val i)) = [ListTransitions k, TransitionIssue k tid]"
    by (simp add: u calls_of_def)
  show "output_of (closeIssue E (Val i)) = []"
    by (simp add: u output_of_def)
  show "outcome_of (closeIssue E (Val i)) = Inr (Val (k @ '' - '' @ chalk E [Green] ''Closed''))"
    if "transitionIssue E k tid = Inr ()"
    using that by (simp add: u outcome_of_def)
next
  assume "(\<forall>t \<in> set ts. transition_name t \<noteq> Val ''Close Issue'')
            \<or> (\<exists>t. find (\<lambda>t. transition_name t = Val ''Close Issue'') ts = Some t
                  \<and> \<not> truthy_str (transition_id t))"
  then have "find (\<lambda>t. transition_name t = Val ''Close Issue'') ts = None
     \<or> (\<exists>t. find (\<lambda>t. transition_name t = Val ''Close Issue'') ts = Some t
           \<and> \<not> truthy_str (transition_id t))"
    by (auto simp add: find_None_iff)
  then show "closeIssue E (Val i) = ([ListTransitions k], [],
                Inr (Val (k @ '' - ''
                  @ chalk E [Red] ''Close Transition not available, reason unknown...'')))"
    using closeIssue_resolved_unfold [OF assms] applyClose_none [of E k] applyClose_no_id [of _ E k]
    by auto
qed

theorem closeIssue_resolved_witness:
  "calls_of (closeIssue demo_env (Val (demo_issue ''P-1'' ''Resolved'' ''New Feature'')))
     = [ListTransitions ''P-1'', TransitionIssue ''P-1'' ''2'']
   \<and> outcome_of (closeIssue demo_env (Val (demo_issue ''P-1'' ''Resolved'' ''New Feature'')))
     = Inr (Val ''P-1 - Closed'')
   \<and> closeIssue demo_env (Val (demo_issue ''P-4'' ''Resolved'' ''Bug''))
     = ([ListTransitions ''P-4''], [],
        Inr (Val ''P-4 - Close Transition not available, reason unknown...''))"
  using closeIssue_resolved [of "demo_issue ''P-1'' ''Resolved'' ''New Feature''" "''P-1''"
      "demo_fields ''Resolved'' ''New Feature''" "\<lparr>status_name = Val ''Resolved''\<rparr>" demo_env
      "\<lparr>transitions = Val [\<lparr>transition_id = Val ''2'',
                                transition_name = Val ''Close Issue''\<rparr>]\<rparr>"
      "[\<lparr>transition_id = Val ''2'', transition_name = Val ''Close Issue''\<rparr>]"]
    closeIssue_resolved [of "demo_issue ''P-4'' ''Resolved'' ''Bug''" "''P-4''"
      "demo_fields ''Resolved'' ''Bug''" "\<lparr>status_name = Val ''Resolved''\<rparr>" demo_env
      "\<lparr>transitions = Val []\<rparr>" "[]"]
  by (simp add: demo_defs)

section \<open>Close-Issues: the join\<close>

text \<open>
  C3 (as the code has it). \<^verbatim>\<open>closeIssues\<close> starts the per-issue handler for every
  matched issue and joins the handlers with \<^verbatim>\<open>Promise.all\<close>, which cancels none of
  them: after the query, the calls made are those of all the handlers together, in
  an order that depends on when the tracker answers. If every handler fulfils, the
  results are printed in the order of the issue query, after the query's own listing.
  If some handler rejects, the join rejects: no result line is printed, not even
  those of the handlers that fulfilled, and \<^verbatim>\<open>closeIssues\<close> itself rejects, with the
  rejection of one of the handlers. This holds for every order of arrival.
\<close>

theorem closeIssues_join:
  assumes "version \<noteq> []"
    and "searchJira E (''fixVersion='' @ version) = Inr (Val r)"
    and "issues r = Val (map Val iss)" and "map issue_fields iss = map Val fs"
  shows "(\<exists>cs. calls_of (closeIssues E version) = SearchJira (''fixVersion='' @ version) # cs
          \<and> mset cs = mset (concat (map (\<lambda>i. calls_of (closeIssue E (Val i))) iss)))
    \<and> (\<forall>ls. map (\<lambda>i. outcome_of (closeIssue E (Val i))) iss = map Inr ls
         \<longrightarrow> output_of (closeIssues E version)
               = map2 (\<lambda>i f. str (issue_key i) @ '' - '' @ str (summary f)) iss fs @ map str ls
             \<and> outcome_of (closeIssues E version) = Inr ())
    \<and> ((\<exists>i \<in> set iss. \<exists>e. outcome_of (closeIssue E (Val i)) = Inl e)
         \<longrightarrow> output_of (closeIssues E version)
               = map2 (\<lambda>i f. str (issue_key i) @ '' - '' @ str (summary f)) iss fs
             \<and> (\<exists>e. outcome_of (closeIssues E version) = Inl e
                  \<and> (\<exists>i \<in> set iss. outcome_of (closeIssue E (Val i)) = Inl e)))"
  using assms by (rule closeIssues_run)

theorem closeIssues_join_witness:
  "output_of (closeIssues (demo_env\<lparr>arrivals := [2, 0, 1, 0]\<rparr>) ''1.0'')
     = [''P-1 - Summary'', ''P-2 - Summary'', ''P-3 - Summary'',
        ''P-1 - Closed'', ''P-2 - Issue already Closed'',
        ''P-3 - Issue not Resolved yet, can't be closed'']
   \<and> outcome_of (closeIssues (demo_env\<lparr>arrivals := [2, 0, 1, 0]\<rparr>) ''1.0'') = Inr ()
   \<and> output_of (closeIssues flaky_env ''1.0'')
     = [''P-1 - Summary'', ''P-2 - Summary'', ''P-3 - Summary'']
   \<and> (\<exists>e. outcome_of (closeIssues flaky_env ''1.0'') = Inl e)"
proof -
  let ?E = "demo_env\<lparr>arrivals := [2, 0, 1, 0]\<rparr>"
  let ?iss = "[demo_issue ''P-1'' ''Resolved'' ''New Feature'',
               demo_issue ''P-2'' ''Closed'' ''Bug'', demo_issue ''P-3'' ''Open'' ''Weird'']"
  let ?fs = "[demo_fields ''Resolved'' ''New Feature'', demo_fields ''Closed'' ''Bug'',
              demo_fields ''Open'' ''Weird'']"
  let ?r = "\<lparr>issues = Val (map Val ?iss)\<rparr>"
  have v: "''1.0'' \<noteq> []"
    by simp
  have r: "issues ?r = Val (map Val ?iss)"
    by simp
  have f: "map issue_fields ?iss = map Val ?fs"
    by (simp add: demo_issue_def)
  have s1: "searchJira ?E (''fixVersion='' @ ''1.0'') = Inr (Val ?r)"
    by (simp add: demo_env_def down_env_def)
  have s2: "searchJira flaky_env (''fixVersion='' @ ''1.0'') = Inr (Val ?r)"
    by (simp add: flaky_env_def demo_env_def down_env_def)
  have o1: "map (\<lambda>i. outcome_of (closeIssue ?E (Val i))) ?iss
      = map Inr [Val ''P-1 - Closed'', Val ''P-2 - Issue already Closed'',
                 Val ''P-3 - Issue not Resolved yet, can't be closed'']"
    by (simp add: demo_defs closeIssue_def getTransitions_def applyClose_def io_defs)
  have o2: "\<exists>i \<in> set ?iss. \<exists>e. outcome_of (closeIssue flaky_env (Val i)) = Inl e"
    by (simp add: flaky_env_def demo_defs closeIssue_def getTransitions_def applyClose_def
        io_defs)
  have l: "map2 (\<lambda>i f. str (issue_key i) @ '' - '' @ str (summary f)) ?iss ?fs
      = [''P-1 - Summary'', ''P-2 - Summary'', ''P-3 - Summary'']"
    by (simp add: demo_issue_def demo_fields_def)
  have a: "output_of (closeIssues ?E ''1.0'')
      = map2 (\<lambda>i f. str (issue_key i) @ '' - '' @ str (summary f)) ?iss ?fs
        @ map str [Val ''P-1 - Closed'', Val ''P-2 - Issue already Closed'',
                   Val ''P-3 - Issue not Resolved yet, can't be closed'']
    \<and> outcome_of (closeIssues ?E ''1.0'') = Inr ()"
    using closeIssues_join [OF v s1 r f] o1 by blast
  have b: "output_of (closeIssues flaky_env ''1.0'')
      = map2 (\<lambda>i f. str (issue_key i) @ '' - '' @ str (summary f)) ?iss ?fs
    \<and> (\<exists>e. outcome_of (closeIssues flaky_env ''1.0'') = Inl e)"
    using closeIssues_join [OF v s2 r f] o2 by blast
  show ?thesis
    using a b by (simp only: l) simp
qed

text \<open>
  The claim as the specification states it fails: with the tracker rejecting the
  transition lookup of P-1, the handler of P-2 still fulfils with its line, and that
  line is not printed.
\<close>

theorem closeIssues_join_counterexample:
  "outcome_of (closeIssue flaky_env (Val (demo_issue ''P-2'' ''Closed'' ''Bug'')))
     = Inr (Val ''P-2 - Issue already Closed'')
   \<and> ''P-2 - Issue already Closed'' \<notin> set (output_of (closeIssues flaky_env ''1.0''))
   \<and> closeIssues flaky_env ''1.0''
     = ([SearchJira ''fixVersion=1.0'', ListTransitions ''P-1''],
        [''P-1 - Summary'', ''P-2 - Summary'', ''P-3 - Summary''],
        Inl (RequestFailed Undefined))"
  by (simp add: flaky_env_def demo_defs closeIssues_def getIssuesByFixVersion_def search_def
      search_line_def closeIssue_def getTransitions_def applyClose_def join_defs io_defs)

text \<open>
  The order of the calls, on two "Resolved" issues: both transition lookups are made
  when the handlers are started, before any answer is in, and the two transitions are
  applied in the order in which the lookups are answered.
\<close>

lemma closeIssues_call_order:
  "calls_of (closeIssues demo_env ''3.0'')
     = [SearchJira ''fixVersion=3.0'', ListTransitions ''R-1'', ListTransitions ''R-2'',
        TransitionIssue ''R-1'' ''2'', TransitionIssue ''R-2'' ''2'']
   \<and> calls_of (closeIssues (demo_env\<lparr>arrivals := [1, 0]\<rparr>) ''3.0'')
     = [SearchJira ''fixVersion=3.0'', ListTransitions ''R-1'', ListTransitions ''R-2'',
        TransitionIssue ''R-2'' ''2'', TransitionIssue ''R-1'' ''2'']"
  by (simp add: demo_defs closeIssues_def getIssuesByFixVersion_def search_def
      search_line_def closeIssue_def getTransitions_def applyClose_def join_defs io_defs)

section \<open>Release-Notes\<close>

text \<open>
  C4 (as the code has it). Let the query for the version answer with issue records
  that each carry their fields and an issue type object. A non-empty answer gives a
  notes object with the version, in which \<open>newFeatures\<close> holds the records of
  exactly the issues whose type name is "New Feature", \<open>improved\<close> those of
  "Improvement", \<open>notes_fixes\<close> those of "Bug" and \<open>notes_other\<close> those of every
  other name, a missing one included, each category in query order; the four
  conditions exclude one another and the four lengths add up to the number of issues,
  so every issue is in exactly one category. The record of an issue has the issue
  key as id, the type name as type and custom field 10101 as description. An empty
  answer gives \<open>Null\<close>, not an object.
\<close>

theorem generateReleaseNotes_partition:
  assumes "version \<noteq> []"
    and "searchJira E (''fixVersion='' @ version) = Inr (Val r)"
    and "issues r = Val (map Val iss)" and "map issue_fields iss = map Val fs"
    and "map issuetype fs = map Val ts"
    and "rows = zip iss (zip fs ts)"
    and "mk = (\<lambda>(i, f, t). \<lparr>note_id = issue_key i, note_type = issuetype_name t,
                              note_description = customfield_10101 f\<rparr>)"
  shows "(iss = [] \<longrightarrow> outcome_of (generateReleaseNotes E version) = Inr Null)
    \<and> (iss \<noteq> [] \<longrightarrow> (\<exists>n. outcome_of (generateReleaseNotes E version) = Inr (Val n)
          \<and> notes_version n = version
          \<and> newFeatures n
              = map mk (filter (\<lambda>(i, f, t). issuetype_name t = Val ''New Feature'') rows)
          \<and> improved n
              = map mk (filter (\<lambda>(i, f, t). issuetype_name t = Val ''Improvement'') rows)
          \<and> notes_fixes n
              = map mk (filter (\<lambda>(i, f, t). issuetype_name t = Val ''Bug'') rows)
          \<and> notes_other n
              = map mk (filter (\<lambda>(i, f, t). issuetype_name t \<noteq> Val ''New Feature''
                  \<and> issuetype_name t \<noteq> Val ''Improvement''
                  \<and> issuetype_name t \<noteq> Val ''Bug'') rows)
          \<and> length (newFeatures n) + length (improved n) + length (notes_fixes n)
               + length (notes_other n) = length iss))"
proof (intro conjI impI)
  show "outcome_of (generateReleaseNotes E version) = Inr Null" if "iss = []"
    using that by (simp add: generateReleaseNotes_found [OF assms(1-4)] io_tuple)
  assume ne: "iss \<noteq> []"
  have "length fs = length iss" and "length ts = length fs"
    using map_eq_imp_length_eq [OF assms(4)] map_eq_imp_length_eq [OF assms(5)] by simp_all
  then have len: "length rows = length iss"
    by (simp add: assms(6))
  obtain n where n: "outcome_of (generateReleaseNotes E version) = Inr (Val n)"
      "notes_version n = version"
      "newFeatures n
         = map mk (filter (\<lambda>(i, f, t). issuetype_name t = Val ''New Feature'') rows)"
      "improved n
         = map mk (filter (\<lambda>(i, f, t). issuetype_name t = Val ''Improvement'') rows)"
      "notes_fixes n
         = map mk (filter (\<lambda>(i, f, t). issuetype_name t = Val ''Bug'') rows)"
      "notes_other n
         = map mk (filter (\<lambda>(i, f, t). issuetype_name t \<noteq> Val ''New Feature''
                  \<and> issuetype_name t \<noteq> Val ''Improvement''
                  \<and> issuetype_name t \<noteq> Val ''Bug'') rows)"
    using generateReleaseNotes_rows [OF assms(1-5) ne assms(6,7)] by blast
  have "length (newFeatures n) + length (improved n) + length (notes_fixes n)
               + length (notes_other n) = length iss"
    using filter_four_rows [of rows] by (simp add: n(3-6) len)
  with n show "\<exists>n. outcome_of (generateReleaseNotes E version) = Inr (Val n)
          \<and> notes_version n = version
          \<and> newFeatures n
              = map mk (filter (\<lambda>(i, f, t). issuetype_name t = Val ''New Feature'') rows)
          \<and> improved n
              = map mk (filter (\<lambda>(i, f, t). issuetype_name t = Val ''Improvement'') rows)
          \<and> notes_fixes n
              = map mk (filter (\<lambda>(i, f, t). issuetype_name t = Val ''Bug'') rows)
          \<and> notes_other n
              = map mk (filter (\<lambda>(i, f, t). issuetype_name t \<noteq> Val ''New Feature''
                  \<and> issuetype_name t \<noteq> Val ''Improvement''
                  \<and> issuetype_name t \<noteq> Val ''Bug'') rows)
          \<and> length (newFeatures n) + length (improved n) + length (notes_fixes n)
               + length (notes_other n) = length iss"
    by blast
qed

theorem generateReleaseNotes_partition_witness:
  "outcome_of (generateReleaseNotes demo_env ''0.9'') = Inr Null
   \<and> (\<exists>n. outcome_of (generateReleaseNotes demo_env ''2.0'') = Inr (Val n)
        \<and> notes_version n = ''2.0''
        \<and> newFeatures n = [\<lparr>note_id = Val ''Q-1'', note_type = Val ''New Feature'',
                              note_description = Val ''Notes''\<rparr>]
        \<and> improved n = [\<lparr>note_id = Val ''Q-4'', note_type = Val ''Improvement'',
                           note_description = Val ''Notes''\<rparr>]
        \<and> notes_fixes n = [\<lparr>note_id = Val ''Q-2'', note_type = Val ''Bug'',
                              note_description = Val ''Notes''\<rparr>]
        \<and> notes_other n = [\<lparr>note_id = Val ''Q-3'', note_type = Val ''Weird'',
                              note_description = Val ''Notes''\<rparr>])"
proof -
  let ?iss = "[demo_issue ''Q-1'' ''Closed'' ''New Feature'', demo_issue ''Q-2'' ''Closed'' ''Bug'',
               demo_issue ''Q-3'' ''Closed'' ''Weird'', demo_issue ''Q-4'' ''Closed'' ''Improvement'']"
  let ?fs = "[demo_fields ''Closed'' ''New Feature'', demo_fields ''Closed'' ''Bug'',
              demo_fields ''Closed'' ''Weird'', demo_fields ''Closed'' ''Improvement'']"
  let ?ts = "[\<lparr>issuetype_name = Val ''New Feature''\<rparr>, \<lparr>issuetype_name = Val ''Bug''\<rparr>,
              \<lparr>issuetype_name = Val ''Weird''\<rparr>, \<lparr>issuetype_name = Val ''Improvement''\<rparr>]"
  have s0: "searchJira demo_env (''fixVersion='' @ ''0.9'') = Inr (Val \<lparr>issues = Val (map Val [])\<rparr>)"
    by (simp add: demo_env_def down_env_def)
  have e: "outcome_of (generateReleaseNotes demo_env ''0.9'') = Inr Null"
    using generateReleaseNotes_partition [OF _ s0 _ _ _ refl refl, of "[]" "[]" "[]"] by simp
  have s2: "searchJira demo_env (''fixVersion='' @ ''2.0'') = Inr (Val \<lparr>issues = Val (map Val ?iss)\<rparr>)"
    by (simp add: demo_env_def down_env_def)
  have f: "map issue_fields ?iss = map Val ?fs"
    by (simp add: demo_issue_def)
  have t: "map issuetype ?fs = map Val ?ts"
    by (simp add: demo_fields_def)
  have "\<exists>n. outcome_of (generateReleaseNotes demo_env ''2.0'') = Inr (Val n)
        \<and> notes_version n = ''2.0''
        \<and> newFeatures n = [\<lparr>note_id = Val ''Q-1'', note_type = Val ''New Feature'',
                              note_description = Val ''Notes''\<rparr>]
        \<and> improved n = [\<lparr>note_id = Val ''Q-4'', note_type = Val ''Improvement'',
                           note_description = Val ''Notes''\<rparr>]
        \<and> notes_fixes n = [\<lparr>note_id = Val ''Q-2'', note_type = Val ''Bug'',
                              note_description = Val ''Notes''\<rparr>]
        \<and> notes_other n = [\<lparr>note_id = Val ''Q-3'', note_type = Val ''Weird'',
                              note_description = Val ''Notes''\<rparr>]"
    using generateReleaseNotes_partition [OF _ s2 _ f t refl refl]
    by (simp add: demo_issue_def demo_fields_def) blast
  with e show ?thesis
    by blast
qed

text \<open>
  The claim as the specification states it, for every non-empty issue list, fails
  where a record lacks its fields or its issue type: the answer is not empty, and yet
  no notes object comes back. With a record without fields the listing of the query
  throws, \<^verbatim>\<open>search\<close> reports it and \<^verbatim>\<open>generateReleaseNotes\<close> returns \<open>Null\<close>; with a
  record without issue type \<^verbatim>\<open>generateReleaseNotes\<close> rejects.
\<close>

theorem generateReleaseNotes_partition_counterexample:
  "searchJira bare_env ''fixVersion=1.0'' = Inr (Val \<lparr>issues = Val [Val bare_issue]\<rparr>)
   \<and> outcome_of (generateReleaseNotes bare_env ''1.0'') = Inr Null
   \<and> outcome_of (generateReleaseNotes untyped_env ''1.0'') = Inl TypeError"
  by (simp add: bare_env_def bare_issue_def untyped_env_def untyped_issue_def demo_defs
      generateReleaseNotes_def getIssuesByFixVersion_def search_def search_line_def
      handleError_def note_of_def data_of_def push_note_def io_defs)

text \<open>
  C9 (as the code has it). When every issue of a non-empty answer carries its fields
  and an issue type object, the categorisation succeeds: every record of a named
  category is the record of an issue whose type name is exactly that category's
  label, and every issue whose type name is none of the three labels, a missing or
  null name included, has its record in \<open>notes_other\<close>.
\<close>

theorem generateReleaseNotes_other:
  assumes "version \<noteq> []"
    and "searchJira E (''fixVersion='' @ version) = Inr (Val r)"
    and "issues r = Val (map Val iss)" and "map issue_fields iss = map Val fs"
    and "map issuetype fs = map Val ts"
    and "iss \<noteq> []"
  shows "\<exists>n. outcome_of (generateReleaseNotes E version) = Inr (Val n)
    \<and> (\<forall>d \<in> set (newFeatures n). \<exists>(i, f, t) \<in> set (zip iss (zip fs ts)).
          issuetype_name t = Val ''New Feature''
          \<and> d = \<lparr>note_id = issue_key i, note_type = issuetype_name t,
                  note_description = customfield_10101 f\<rparr>)
    \<and> (\<forall>d \<in> set (improved n). \<exists>(i, f, t) \<in> set (zip iss (zip fs ts)).
          issuetype_name t = Val ''Improvement''
          \<and> d = \<lparr>note_id = issue_key i, note_type = issuetype_name t,
                  note_description = customfield_10101 f\<rparr>)
    \<and> (\<forall>d \<in> set (notes_fixes n). \<exists>(i, f, t) \<in> set (zip iss (zip fs ts)).
          issuetype_name t = Val ''Bug''
          \<and> d = \<lparr>note_id = issue_key i, note_type = issuetype_name t,
                  note_description = customfield_10101 f\<rparr>)
    \<and> (\<forall>(i, f, t) \<in> set (zip iss (zip fs ts)).
          issuetype_name t \<noteq> Val ''New Feature''
          \<and> issuetype_name t \<noteq> Val ''Improvement''
          \<and> issuetype_name t \<noteq> Val ''Bug''
          \<longrightarrow> \<lparr>note_id = issue_key i, note_type = issuetype_name t,
                 note_description = customfield_10101 f\<rparr> \<in> set (notes_other n))"
proof -
  let ?rows = "zip iss (zip fs ts)"
  let ?mk = "\<lambda>(i, f, t). \<lparr>note_id = issue_key i, note_type = issuetype_name t,
                              note_description = customfield_10101 f\<rparr>"
  obtain n where n: "outcome_of (generateReleaseNotes E version) = Inr (Val n)"
      "newFeatures n
         = map ?mk (filter (\<lambda>(i, f, t). issuetype_name t = Val ''New Feature'') ?rows)"
      "improved n
         = map ?mk (filter (\<lambda>(i, f, t). issuetype_name t = Val ''Improvement'') ?rows)"
      "notes_fixes n
         = map ?mk (filter (\<lambda>(i, f, t). issuetype_name t = Val ''Bug'') ?rows)"
      "notes_other n
         = map ?mk (filter (\<lambda>(i, f, t). issuetype_name t \<noteq> Val ''New Feature''
                  \<and> issuetype_name t \<noteq> Val ''Improvement''
                  \<and> issuetype_name t \<noteq> Val ''Bug'') ?rows)"
    using generateReleaseNotes_rows [OF assms refl refl] by blast
  have a: "\<forall>d \<in> set (newFeatures n). \<exists>(i, f, t) \<in> set ?rows.
          issuetype_name t = Val ''New Feature''
          \<and> d = \<lparr>note_id = issue_key i, note_type = issuetype_name t,
                  note_description = customfield_10101 f\<rparr>"
    unfolding n(2) by force
  have b: "\<forall>d \<in> set (improved n). \<exists>(i, f, t) \<in> set ?rows.
          issuetype_name t = Val ''Improvement''
          \<and> d = \<lparr>note_id = issue_key i, note_type = issuetype_name t,
                  note_description = customfield_10101 f\<rparr>"
    unfolding n(3) by force
  have c: "\<forall>d \<in> set (notes_fixes n). \<exists>(i, f, t) \<in> set ?rows.
          issuetype_name t = Val ''Bug''
          \<and> d = \<lparr>note_id = issue_key i, note_type = issuetype_name t,
                  note_description = customfield_10101 f\<rparr>"
    unfolding n(4) by force
  have d: "\<forall>(i, f, t) \<in> set ?rows.
          issuetype_name t \<noteq> Val ''New Feature''
          \<and> issuetype_name t \<noteq> Val ''Improvement''
          \<and> issuetype_name t \<noteq> Val ''Bug''
          \<longrightarrow> \<lparr>note_id = issue_key i, note_type = issuetype_name t,
                 note_description = customfield_10101 f\<rparr> \<in> set (notes_other n)"
    unfolding n(5) by force
  from n(1) a b c d show ?thesis
    by blast
qed

theorem generateReleaseNotes_other_witness:
  "\<exists>n. outcome_of (generateReleaseNotes demo_env ''2.0'') = Inr (Val n)
     \<and> \<lparr>note_id = Val ''Q-3'', note_type = Val ''Weird'', note_description = Val ''Notes''\<rparr>
         \<in> set (notes_other n)"
proof -
  let ?iss = "[demo_issue ''Q-1'' ''Closed'' ''New Feature'', demo_issue ''Q-2'' ''Closed'' ''Bug'',
               demo_issue ''Q-3'' ''Closed'' ''Weird'', demo_issue ''Q-4'' ''Closed'' ''Improvement'']"
  let ?fs = "[demo_fields ''Closed'' ''New Feature'', demo_fields ''Closed'' ''Bug'',
              demo_fields ''Closed'' ''Weird'', demo_fields ''Closed'' ''Improvement'']"
  let ?ts = "[\<lparr>issuetype_name = Val ''New Feature''\<rparr>, \<lparr>issuetype_name = Val ''Bug''\<rparr>,
              \<lparr>issuetype_name = Val ''Weird''\<rparr>, \<lparr>issuetype_name = Val ''Improvement''\<rparr>]"
  have v: "''2.0'' \<noteq> []"
    by simp
  have s2: "searchJira demo_env (''fixVersion='' @ ''2.0'') = Inr (Val \<lparr>issues = Val (map Val ?iss)\<rparr>)"
    by (simp add: demo_env_def down_env_def)
  have r: "issues \<lparr>issues = Val (map Val ?iss)\<rparr> = Val (map Val ?iss)"
    by simp
  have f: "map issue_fields ?iss = map Val ?fs"
    by (simp add: demo_issue_def)
  have t: "map issuetype ?fs = map Val ?ts"
    by (simp add: demo_fields_def)
  have ne: "?iss \<noteq> []"
    by simp
  obtain n where n: "outcome_of (generateReleaseNotes demo_env ''2.0'') = Inr (Val n)"
      "\<forall>(i, f, t) \<in> set (zip ?iss (zip ?fs ?ts)).
          issuetype_name t \<noteq> Val ''New Feature''
          \<and> issuetype_name t \<noteq> Val ''Improvement''
          \<and> issuetype_name t \<noteq> Val ''Bug''
          \<longrightarrow> \<lparr>note_id = issue_key i, note_type = issuetype_name t,
                 note_description = customfield_10101 f\<rparr> \<in> set (notes_other n)"
    using generateReleaseNotes_other [OF v s2 r f t ne] by blast
  have "(demo_issue ''Q-3'' ''Closed'' ''Weird'', demo_fields ''Closed'' ''Weird'',
         \<lparr>issuetype_name = Val ''Weird''\<rparr>) \<in> set (zip ?iss (zip ?fs ?ts))"
    by simp
  with n(2) have "\<lparr>note_id = issue_key (demo_issue ''Q-3'' ''Closed'' ''Weird''),
        note_type = issuetype_name \<lparr>issuetype_name = Val ''Weird''\<rparr>,
        note_description = customfield_10101 (demo_fields ''Closed'' ''Weird'')\<rparr>
      \<in> set (notes_other n)"
    by fastforce
  then have "\<lparr>note_id = Val ''Q-3'', note_type = Val ''Weird'', note_description = Val ''Notes''\<rparr>
         \<in> set (notes_other n)"
    by (simp add: demo_issue_def demo_fields_def)
  with n(1) show ?thesis
    by blast
qed

text \<open>
  The claim as the specification states it fails for an issue without an issue type
  object: reading its name throws, and \<^verbatim>\<open>generateReleaseNotes\<close> rejects instead of
  filing the issue under Other.
\<close>

theorem generateReleaseNotes_other_counterexample:
  "issuetype (demo_fields ''Closed'' []\<lparr>issuetype := Undefined\<rparr>) = Undefined
   \<and> generateReleaseNotes untyped_env ''1.0''
     = ([SearchJira ''fixVersion=1.0''], [''P-1 - Summary'', ''P-2 - Summary''], Inl TypeError)"
  by (simp add: untyped_env_def untyped_issue_def demo_defs generateReleaseNotes_def
      getIssuesByFixVersion_def search_def search_line_def note_of_def data_of_def
      push_note_def io_defs)

section \<open>Set-Version\<close>

text \<open>
  C5. Let the active sprint, its issues and the target version all be found. Every
  \<open>UpdateIssue\<close> call of \<^verbatim>\<open>setVersion\<close> then carries the found version alone and
  the id of a sprint issue whose status name is not "Closed" and whose list of
  fix-versions is missing or empty: an issue that is Closed or has a fix-version is
  never passed to the update call. When the run reaches its end, every such issue
  has been reported as skipped, and the last line is the tally
  "Updated {updatedCount} issues out of {issueCount} total issues." with
  \<open>updatedCount\<close> the number of \<open>UpdateIssue\<close> calls made and \<open>issueCount\<close> the
  number of issues fetched for the sprint, both in decimal.
\<close>

theorem setVersion_updates:
  assumes "getAllSprints E CV_BOARD_ID 0 50 ''active'' = Inr (Val s)"
    and "sprint_values s = Val (Val sp # sps)"
    and "sprint_id sp = Val sid" and "sid \<noteq> 0"
    and "getBoardIssuesForSprint E CV_BOARD_ID sid = Inr (Val b)"
    and "sprint_issues b = Val is"
    and "getVersions E CV_PROJECT_ID = Inr (Val vs)"
    and "findVersion vs version = Some v"
  shows "(\<forall>x fv. UpdateIssue x fv \<in> set (calls_of (setVersion E version sprintId))
          \<longrightarrow> fv = [v] \<and> (\<exists>i. x = issue_id i \<and> Val i \<in> set is
                \<and> \<not> (\<exists>f st. issue_fields i = Val f \<and> status f = Val st
                        \<and> status_name st = Val ''Closed'')
                \<and> \<not> (\<exists>f fvs. issue_fields i = Val f \<and> fixVersions f = Val fvs
                        \<and> fvs \<noteq> [])))
    \<and> (\<forall>u. outcome_of (setVersion E version sprintId) = Inr u
          \<longrightarrow> last (output_of (setVersion E version sprintId))
                = chalk E [Bold, Underline, Green]
                    (NL @ ''Updated ''
                      @ str_nat (length (filter is_update
                            (calls_of (setVersion E version sprintId))))
                      @ '' issues out of '' @ str_nat (length is) @ '' total issues.'' @ NL)
              \<and> (\<forall>i. Val i \<in> set is
                    \<and> ((\<exists>f st. issue_fields i = Val f \<and> status f = Val st
                          \<and> status_name st = Val ''Closed'')
                       \<or> (\<exists>f fvs. issue_fields i = Val f \<and> fixVersions f = Val fvs
                          \<and> fvs \<noteq> []))
                  \<longrightarrow> chalk E [Yellow]
                        (TAB @ str (issue_key i) @ '' already has a version or is closed'')
                      \<in> set (output_of (setVersion E version sprintId))))
    \<and> (\<forall>n. decimal (str_nat n) = n)"
proof -
  obtain cs out r where u: "updateIssues E [v] is 0 = (cs, out, r)"
    by (cases "updateIssues E [v] is 0") auto
  note sv = setVersion_unfold [OF assms u]
  have c: "\<forall>c \<in> set cs. \<exists>i. c = UpdateIssue (issue_id i) [v] \<and> Val i \<in> set is
        \<and> \<not> isIssueClosed (Val i) \<and> \<not> doesIssueHaveFixVersion (Val i)"
    using updateIssues_calls [of E "[v]" "is" 0] by (simp add: u io_tuple)
  have "\<forall>x fv. UpdateIssue x fv \<in> set (calls_of (setVersion E version sprintId))
          \<longrightarrow> fv = [v] \<and> (\<exists>i. x = issue_id i \<and> Val i \<in> set is
                \<and> \<not> isIssueClosed (Val i) \<and> \<not> doesIssueHaveFixVersion (Val i))"
    using c by (auto simp add: sv io_tuple)
  then have p1: "\<forall>x fv. UpdateIssue x fv \<in> set (calls_of (setVersion E version sprintId))
          \<longrightarrow> fv = [v] \<and> (\<exists>i. x = issue_id i \<and> Val i \<in> set is
                \<and> \<not> (\<exists>f st. issue_fields i = Val f \<and> status f = Val st
                        \<and> status_name st = Val ''Closed'')
                \<and> \<not> (\<exists>f fvs. issue_fields i = Val f \<and> fixVersions f = Val fvs
                        \<and> fvs \<noteq> []))"
    by (simp only: isIssueClosed_iff doesIssueHaveFixVersion_iff)
  have p2: "last (output_of (setVersion E version sprintId))
                = chalk E [Bold, Underline, Green]
                    (NL @ ''Updated ''
                      @ str_nat (length (filter is_update
                            (calls_of (setVersion E version sprintId))))
                      @ '' issues out of '' @ str_nat (length is) @ '' total issues.'' @ NL)
              \<and> (\<forall>i. Val i \<in> set is
                    \<and> ((\<exists>f st. issue_fields i = Val f \<and> status f = Val st
                          \<and> status_name st = Val ''Closed'')
                       \<or> (\<exists>f fvs. issue_fields i = Val f \<and> fixVersions f = Val fvs
                          \<and> fvs \<noteq> []))
                  \<longrightarrow> chalk E [Yellow]
                        (TAB @ str (issue_key i) @ '' already has a version or is closed'')
                      \<in> set (output_of (setVersion E version sprintId)))"
    if "outcome_of (setVersion E version sprintId) = Inr u" for u
  proof -
    from that obtain m where r: "r = Inr m"
      by (cases r) (simp_all add: sv io_tuple)
    from updateIssues_complete [OF u [unfolded r]]
    have "last (output_of (setVersion E version sprintId))
                = tally E (length (filter is_update (calls_of (setVersion E version sprintId))))
                    (length is)
              \<and> (\<forall>i. Val i \<in> set is
                    \<and> (isIssueClosed (Val i) \<or> doesIssueHaveFixVersion (Val i))
                  \<longrightarrow> chalk E [Yellow]
                        (TAB @ str (issue_key i) @ '' already has a version or is closed'')
                      \<in> set (output_of (setVersion E version sprintId)))"
      by (simp add: sv r io_tuple)
    then show ?thesis
      unfolding isIssueClosed_iff doesIssueHaveFixVersion_iff tally_def by blast
  qed
  from p1 p2 str_nat_decimal show ?thesis
    by blast
qed

theorem setVersion_updates_witness:
  "UpdateIssue (Val ''1P-2'') [\<lparr>version_id = Val ''100'', version_name = Val ''1.0''\<rparr>]
       \<notin> set (calls_of (setVersion demo_env ''1.0'' Undefined))
   \<and> UpdateIssue (Val ''1P-5'') [\<lparr>version_id = Val ''100'', version_name = Val ''1.0''\<rparr>]
       \<notin> set (calls_of (setVersion demo_env ''1.0'' Undefined))
   \<and> length (filter is_update (calls_of (setVersion demo_env ''1.0'' Undefined))) = 1
   \<and> last (output_of (setVersion demo_env ''1.0'' Undefined))
       = NL @ ''Updated 1 issues out of 3 total issues.'' @ NL
   \<and> TAB @ ''P-2 already has a version or is closed''
       \<in> set (output_of (setVersion demo_env ''1.0'' Undefined))
   \<and> TAB @ ''P-5 already has a version or is closed''
       \<in> set (output_of (setVersion demo_env ''1.0'' Undefined))"
proof -
  let ?v = "\<lparr>version_id = Val ''100'', version_name = Val ''1.0''\<rparr>"
  let ?vs = "[Val ?v, Null, Val \<lparr>version_id = Val ''101'', version_name = Val ''RC1''\<rparr>,
              Val \<lparr>version_id = Val ''102'', version_name = Val ''1.0''\<rparr>]"
  let ?is = "[Val (demo_issue ''P-1'' ''Resolved'' ''New Feature''),
              Val (demo_issue ''P-2'' ''Closed'' ''Bug''), Val (versioned_issue ''P-5'' ''Open'')]"
  have ev: "setVersion demo_env ''1.0'' Undefined =
    ([GetAllSprints ''14'' 0 50 ''active'', GetBoardIssuesForSprint ''14'' 7,
      GetVersions ''10025'', UpdateIssue (Val ''1P-1'') [?v]],
     [NL @ ''Setting fix version to: 1.0'' @ NL, TAB @ ''P-1'',
      TAB @ ''P-2 already has a version or is closed'',
      TAB @ ''P-5 already has a version or is closed'',
      NL @ ''Updated 1 issues out of 3 total issues.'' @ NL],
     Inr Undefined)"
    by (simp add: demo_defs versioned_issue_def setVersion_def setVersionInSprint_def tally_def
        isIssueClosed_def doesIssueHaveFixVersion_def CV_BOARD_ID_def CV_PROJECT_ID_def
        digit_def io_defs)
  have h: "getAllSprints demo_env CV_BOARD_ID 0 50 ''active''
        = Inr (Val \<lparr>sprint_values = Val [Val \<lparr>sprint_id = Val 7\<rparr>]\<rparr>)"
      "sprint_values \<lparr>sprint_values = Val [Val \<lparr>sprint_id = Val 7\<rparr>]\<rparr>
        = Val (Val \<lparr>sprint_id = Val 7\<rparr> # [])"
      "sprint_id \<lparr>sprint_id = Val 7\<rparr> = Val 7" "(7::int) \<noteq> 0"
      "getBoardIssuesForSprint demo_env CV_BOARD_ID 7 = Inr (Val \<lparr>sprint_issues = Val ?is\<rparr>)"
      "sprint_issues \<lparr>sprint_issues = Val ?is\<rparr> = Val ?is"
      "getVersions demo_env CV_PROJECT_ID = Inr (Val ?vs)"
      "findVersion ?vs ''1.0'' = Some ?v"
    by (simp_all add: demo_env_def down_env_def)
  have o: "outcome_of (setVersion demo_env ''1.0'' Undefined) = Inr Undefined"
    by (simp only: ev io_tuple)
  have t: "last (output_of (setVersion demo_env ''1.0'' Undefined))
      = chalk demo_env [Bold, Underline, Green]
          (NL @ ''Updated ''
            @ str_nat (length (filter is_update
                  (calls_of (setVersion demo_env ''1.0'' Undefined))))
            @ '' issues out of '' @ str_nat (length ?is) @ '' total issues.'' @ NL)"
    using setVersion_updates [OF h, of Undefined] o by blast
  show ?thesis
    using t unfolding ev io_tuple
    by (simp add: demo_env_def down_env_def digit_def)
qed

text \<open>
  C7. \<^verbatim>\<open>setVersion\<close> aborts without any \<open>UpdateIssue\<close> call in both lookup failures.
  When the board has no active sprint (the list is empty, or its first entry is no
  sprint with an id) the only call is the sprint lookup, "Active sprint not found"
  is reported and \<open>Null\<close> returned. When no version of the project has a name equal
  to the target, the calls are the three lookups, Version "<version>" not found is
  reported and \<open>Null\<close> returned; nothing creates the version. The comparison is
  equality of strings, and a version that is found is the first of that name.
\<close>

theorem setVersion_lookup_failures:
  \<open>(\<forall>s sps. getAllSprints E CV_BOARD_ID 0 50 ''active'' = Inr (Val s)
        \<and> sprint_values s = Val sps
        \<and> (sps = [] \<or> (\<exists>x rest. sps = x # rest
              \<and> (\<forall>sp. x = Val sp \<longrightarrow> \<not> truthy_num (sprint_id sp))))
      \<longrightarrow> setVersion E version sprintId =
          ([GetAllSprints CV_BOARD_ID 0 50 ''active''],
           [chalk E [Bold, Underline] (NL @ ''Setting fix version to: '' @ version @ NL),
            chalk E [Bold, Red] ''Active sprint not found''],
           Inr Null))
   \<and> (\<forall>s sp sps sid b vs. getAllSprints E CV_BOARD_ID 0 50 ''active'' = Inr (Val s)
        \<and> sprint_values s = Val (Val sp # sps) \<and> sprint_id sp = Val sid \<and> sid \<noteq> 0
        \<and> getBoardIssuesForSprint E CV_BOARD_ID sid = Inr b
        \<and> getVersions E CV_PROJECT_ID = Inr (Val vs)
        \<and> (\<forall>ver. Val ver \<in> set vs \<longrightarrow> version_name ver \<noteq> Val version)
      \<longrightarrow> setVersion E version sprintId =
          ([GetAllSprints CV_BOARD_ID 0 50 ''active'', GetBoardIssuesForSprint CV_BOARD_ID sid,
            GetVersions CV_PROJECT_ID],
           [chalk E [Bold, Underline] (NL @ ''Setting fix version to: '' @ version @ NL),
            chalk E [Bold, Red] (''Version "'' @ version @ ''" not found'')],
           Inr Null))
   \<and> (\<forall>vs v. findVersion vs version = Some v
      \<longrightarrow> (\<exists>pre post. vs = pre @ Val v # post \<and> version_name v = Val version
            \<and> (\<forall>ver. Val ver \<in> set pre \<longrightarrow> version_name ver \<noteq> Val version)))\<close>
proof (intro conjI allI impI)
  fix s sps
  assume h: "getAllSprints E CV_BOARD_ID 0 50 ''active'' = Inr (Val s)
        \<and> sprint_values s = Val sps
        \<and> (sps = [] \<or> (\<exists>x rest. sps = x # rest
              \<and> (\<forall>sp. x = Val sp \<longrightarrow> \<not> truthy_num (sprint_id sp))))"
  then consider "sps = []"
    | x rest where "sps = x # rest" and "\<forall>sp. x = Val sp \<longrightarrow> \<not> truthy_num (sprint_id sp)"
    by blast
  then show "setVersion E version sprintId =
          ([GetAllSprints CV_BOARD_ID 0 50 ''active''],
           [chalk E [Bold, Underline] (NL @ ''Setting fix version to: '' @ version @ NL),
            chalk E [Bold, Red] ''Active sprint not found''],
           Inr Null)"
  proof cases
    case 1
    with h show ?thesis
      by (simp add: setVersion_def io_defs)
  next
    case 2
    with h show ?thesis
      by (cases x; cases "sprint_id (case x of Val sp \<Rightarrow> sp)")
        (simp_all add: setVersion_def io_defs)
  qed
next
  fix s sp sps sid b vs
  assume h: \<open>getAllSprints E CV_BOARD_ID 0 50 ''active'' = Inr (Val s)
        \<and> sprint_values s = Val (Val sp # sps) \<and> sprint_id sp = Val sid \<and> sid \<noteq> 0
        \<and> getBoardIssuesForSprint E CV_BOARD_ID sid = Inr b
        \<and> getVersions E CV_PROJECT_ID = Inr (Val vs)
        \<and> (\<forall>ver. Val ver \<in> set vs \<longrightarrow> version_name ver \<noteq> Val version)\<close>
  then have "findVersion vs version = None"
    using findVersion_none by blast
  with h show \<open>setVersion E version sprintId =
          ([GetAllSprints CV_BOARD_ID 0 50 ''active'', GetBoardIssuesForSprint CV_BOARD_ID sid,
            GetVersions CV_PROJECT_ID],
           [chalk E [Bold, Underline] (NL @ ''Setting fix version to: '' @ version @ NL),
            chalk E [Bold, Red] (''Version "'' @ version @ ''" not found'')],
           Inr Null)\<close>
    by (simp add: setVersion_def setVersionInSprint_def io_defs)
next
  fix vs v
  assume "findVersion vs version = Some v"
  then show "\<exists>pre post. vs = pre @ Val v # post \<and> version_name v = Val version
            \<and> (\<forall>ver. Val ver \<in> set pre \<longrightarrow> version_name ver \<noteq> Val version)"
    by (rule findVersion_first)
qed


theorem setVersion_lookup_failures_witness:
  \<open>setVersion idle_env ''1.0'' Undefined =
     ([GetAllSprints ''14'' 0 50 ''active''],
      [NL @ ''Setting fix version to: 1.0'' @ NL, ''Active sprint not found''],
      Inr Null)
   \<and> setVersion demo_env ''rc1'' Undefined =
     ([GetAllSprints ''14'' 0 50 ''active'', GetBoardIssuesForSprint ''14'' 7,
       GetVersions ''10025''],
      [NL @ ''Setting fix version to: rc1'' @ NL, ''Version "rc1" not found''],
      Inr Null)
   \<and> findVersion [Val \<lparr>version_id = Val ''100'', version_name = Val ''1.0''\<rparr>, Null,
                   Val \<lparr>version_id = Val ''102'', version_name = Val ''1.0''\<rparr>] ''1.0''
       = Some \<lparr>version_id = Val ''100'', version_name = Val ''1.0''\<rparr>\<close>
proof -
  have a: "getAllSprints idle_env CV_BOARD_ID 0 50 ''active'' = Inr (Val \<lparr>sprint_values = Val []\<rparr>)
        \<and> sprint_values \<lparr>sprint_values = Val []\<rparr> = Val []
        \<and> ([] = [] \<or> (\<exists>x rest. ([] :: sprint js list) = x # rest
              \<and> (\<forall>sp. x = Val sp \<longrightarrow> \<not> truthy_num (sprint_id sp))))"
    by (simp add: idle_env_def demo_env_def down_env_def)
  let ?vs = "[Val \<lparr>version_id = Val ''100'', version_name = Val ''1.0''\<rparr>, Null,
              Val \<lparr>version_id = Val ''101'', version_name = Val ''RC1''\<rparr>,
              Val \<lparr>version_id = Val ''102'', version_name = Val ''1.0''\<rparr>]"
  have b: "getAllSprints demo_env CV_BOARD_ID 0 50 ''active''
          = Inr (Val \<lparr>sprint_values = Val [Val \<lparr>sprint_id = Val 7\<rparr>]\<rparr>)
        \<and> sprint_values \<lparr>sprint_values = Val [Val \<lparr>sprint_id = Val 7\<rparr>]\<rparr>
          = Val (Val \<lparr>sprint_id = Val 7\<rparr> # [])
        \<and> sprint_id \<lparr>sprint_id = Val 7\<rparr> = Val 7 \<and> (7::int) \<noteq> 0
        \<and> getBoardIssuesForSprint demo_env CV_BOARD_ID 7
          = Inr (Val \<lparr>sprint_issues = Val [Val (demo_issue ''P-1'' ''Resolved'' ''New Feature''),
              Val (demo_issue ''P-2'' ''Closed'' ''Bug''), Val (versioned_issue ''P-5'' ''Open'')]\<rparr>)
        \<and> getVersions demo_env CV_PROJECT_ID = Inr (Val ?vs)
        \<and> (\<forall>ver. Val ver \<in> set ?vs \<longrightarrow> version_name ver \<noteq> Val ''rc1'')"
    by (auto simp add: demo_env_def down_env_def)
  note t = setVersion_lookup_failures [of idle_env "''1.0''" Undefined]
    setVersion_lookup_failures [of demo_env "''rc1''" Undefined]
  have 1: "setVersion idle_env ''1.0'' Undefined =
     ([GetAllSprints CV_BOARD_ID 0 50 ''active''],
      [chalk idle_env [Bold, Underline] (NL @ ''Setting fix version to: '' @ ''1.0'' @ NL),
       chalk idle_env [Bold, Red] ''Active sprint not found''],
      Inr Null)"
    using t(1) a by blast
  have 2: \<open>setVersion demo_env ''rc1'' Undefined =
     ([GetAllSprints CV_BOARD_ID 0 50 ''active'', GetBoardIssuesForSprint CV_BOARD_ID 7,
       GetVersions CV_PROJECT_ID],
      [chalk demo_env [Bold, Underline] (NL @ ''Setting fix version to: '' @ ''rc1'' @ NL),
       chalk demo_env [Bold, Red] (''Version "'' @ ''rc1'' @ ''" not found'')],
      Inr Null)\<close>
    using t(2) b by blast
  show ?thesis
    unfolding 1 2
    by (simp add: CV_BOARD_ID_def CV_PROJECT_ID_def idle_env_def demo_env_def down_env_def)
qed

section \<open>Close-Issues: status matching and missing records\<close>

text \<open>
  C10. The status tests of the handler are exact string comparisons. A status name
  that equals "Closed" or "Resolved" only up to letter case ("closed", "CLOSED",
  "resolved") is neither, so the handler returns
  "{key} - Issue not Resolved yet, can't be closed" with an empty call log: no
  transition lookup and no transition call.
\<close>

theorem closeIssue_case_sensitive:
  assumes "issue_key i = Val k" and "k \<noteq> []"
    and "issue_fields i = Val f" and "status f = Val st"
    and "status_name st = Val s"
    and "s \<noteq> ''Closed''" and "s \<noteq> ''Resolved''"
    and "toLowerCase s = ''closed'' \<or> toLowerCase s = ''resolved''"
  shows "closeIssue E (Val i) =
    ([], [], Inr (Val (k @ '' - '' @ chalk E [Red] ''Issue not Resolved yet, can't be closed'')))"
  using assms(1-7) by (simp add: closeIssue_def return_def)

theorem closeIssue_case_sensitive_witness:
  "closeIssue demo_env (Val (demo_issue ''P-7'' ''closed'' ''Bug''))
     = ([], [], Inr (Val ''P-7 - Issue not Resolved yet, can't be closed''))
   \<and> closeIssue demo_env (Val (demo_issue ''P-8'' ''CLOSED'' ''Bug''))
     = ([], [], Inr (Val ''P-8 - Issue not Resolved yet, can't be closed''))
   \<and> closeIssue demo_env (Val (demo_issue ''P-9'' ''resolved'' ''Bug''))
     = ([], [], Inr (Val ''P-9 - Issue not Resolved yet, can't be closed''))"
  using closeIssue_case_sensitive [of "demo_issue ''P-7'' ''closed'' ''Bug''" "''P-7''"
      "demo_fields ''closed'' ''Bug''" "\<lparr>status_name = Val ''closed''\<rparr>" "''closed''" demo_env]
    closeIssue_case_sensitive [of "demo_issue ''P-8'' ''CLOSED'' ''Bug''" "''P-8''"
      "demo_fields ''CLOSED'' ''Bug''" "\<lparr>status_name = Val ''CLOSED''\<rparr>" "''CLOSED''" demo_env]
    closeIssue_case_sensitive [of "demo_issue ''P-9'' ''resolved'' ''Bug''" "''P-9''"
      "demo_fields ''resolved'' ''Bug''" "\<lparr>status_name = Val ''resolved''\<rparr>" "''resolved''"
      demo_env]
  by (simp add: demo_defs toLowerCase_def)

text \<open>
  C8 (the code departs from it). For a record without a status the handler returns
  \<^verbatim>\<open>undefined\<close> and calls nothing, as the claim says; but \<^verbatim>\<open>closeIssues\<close> then
  passes every handler result to \<^verbatim>\<open>console.log\<close>, so for that record the line
  "undefined" is printed.
\<close>

theorem closeIssues_prints_undefined:
  "status (demo_fields [] ''Bug''\<lparr>status := Undefined\<rparr>) = Undefined
   \<and> closeIssue statusless_env (Val (statusless_issue ''P-1'')) = ([], [], Inr Undefined)
   \<and> closeIssues statusless_env ''1.0''
     = ([SearchJira ''fixVersion=1.0''],
        [''P-1 - Summary'', ''P-2 - Summary'', ''undefined'', ''P-2 - Issue already Closed''],
        Inr ())"
  by (simp add: statusless_env_def statusless_issue_def demo_defs closeIssues_def
      getIssuesByFixVersion_def search_def search_line_def closeIssue_def join_defs io_defs)

section \<open>Failing tracker calls\<close>




end
